theory Spec2Isabelle
  imports Main "HOL-Library.Word"
begin

section \<open>JavaScript strings\<close>

text \<open>
  A JavaScript string is a sequence of UTF-16 code units; \<open>length\<close> counts code units and
  \<open>s[i]\<close> reads one. String literals of the source that are not ASCII are written out as
  their code units. \<open>ascii\<close> turns an Isabelle literal into the code units of the same
  ASCII text.
\<close>

type_synonym jstring = "16 word list"

definition ascii :: "string \<Rightarrow> jstring" where
  "ascii s = map of_char s"

text \<open>\<open>s[i]\<close>: the code unit at index \<open>i\<close>, or \<open>undefined\<close> (here \<open>None\<close>) out of range.\<close>

definition charAt :: "jstring \<Rightarrow> nat \<Rightarrow> 16 word option" where
  "charAt s i = (if i < length s then Some (s ! i) else None)"

text \<open>
  \<open>String.prototype.trim\<close> removes leading and trailing WhiteSpace and LineTerminator code
  units (ECMAScript: TAB, LF, VT, FF, CR, SP, NBSP, the other space separators, LS, PS, ZWNBSP).
\<close>

definition isWhiteSpace :: "16 word \<Rightarrow> bool" where
  "isWhiteSpace c =
     (c = 0x9 \<or> c = 0xA \<or> c = 0xB \<or> c = 0xC \<or> c = 0xD \<or> c = 0x20 \<or> c = 0xA0 \<or> c = 0x1680
      \<or> (0x2000 \<le> c \<and> c \<le> 0x200A) \<or> c = 0x2028 \<or> c = 0x2029 \<or> c = 0x202F \<or> c = 0x205F
      \<or> c = 0x3000 \<or> c = 0xFEFF)"

definition trim :: "jstring \<Rightarrow> jstring" where
  "trim s = rev (dropWhile isWhiteSpace (rev (dropWhile isWhiteSpace s)))"

subsection \<open>\<open>isNaN(Number(s))\<close>\<close>

text \<open>
  \<open>Number(s)\<close> applied to a string is ECMAScript's StringToNumber: the result is \<open>NaN\<close>
  exactly when \<open>s\<close> is not a StringNumericLiteral, that is, when \<open>s\<close> with the white space
  around it removed is neither empty, nor a decimal literal (optional sign; \<open>Infinity\<close>, or
  digits with an optional fraction and an optional exponent), nor a \<open>0x\<close>, \<open>0o\<close> or \<open>0b\<close>
  integer literal. The recognisers below follow that grammar production by production.
\<close>

definition isDecimalDigit :: "16 word \<Rightarrow> bool" where
  "isDecimalDigit c = (0x30 \<le> c \<and> c \<le> 0x39)"

definition isHexDigit :: "16 word \<Rightarrow> bool" where
  "isHexDigit c = (isDecimalDigit c \<or> (0x41 \<le> c \<and> c \<le> 0x46) \<or> (0x61 \<le> c \<and> c \<le> 0x66))"

definition isOctalDigit :: "16 word \<Rightarrow> bool" where
  "isOctalDigit c = (0x30 \<le> c \<and> c \<le> 0x37)"

definition isBinaryDigit :: "16 word \<Rightarrow> bool" where
  "isBinaryDigit c = (c = 0x30 \<or> c = 0x31)"

definition isDecimalDigits :: "jstring \<Rightarrow> bool" where
  "isDecimalDigits s = (s \<noteq> [] \<and> list_all isDecimalDigit s)"

text \<open>ExponentPart: \<open>e\<close> or \<open>E\<close>, an optional sign, DecimalDigits.\<close>

definition isExponentPart :: "jstring \<Rightarrow> bool" where
  "isExponentPart s =
     (case s of
        [] \<Rightarrow> False
      | e # r \<Rightarrow> (e = 0x65 \<or> e = 0x45) \<and>
          (case r of
             [] \<Rightarrow> False
           | g # t \<Rightarrow> if g = 0x2B \<or> g = 0x2D then isDecimalDigits t else isDecimalDigits r))"

text \<open>
  StrUnsignedDecimalLiteral: \<open>Infinity\<close>, or \<open>digits . digits\<^sub>o\<^sub>p\<^sub>t exponent\<^sub>o\<^sub>p\<^sub>t\<close>, or
  \<open>. digits exponent\<^sub>o\<^sub>p\<^sub>t\<close>, or \<open>digits exponent\<^sub>o\<^sub>p\<^sub>t\<close>.
\<close>

definition isStrUnsignedDecimalLiteral :: "jstring \<Rightarrow> bool" where
  "isStrUnsignedDecimalLiteral s =
     (let ds = takeWhile isDecimalDigit s; r = dropWhile isDecimalDigit s in
      s = ascii ''Infinity'' \<or>
      (case r of
         [] \<Rightarrow> ds \<noteq> []
       | c # t \<Rightarrow>
           if c = 0x2E then
             (let fs = takeWhile isDecimalDigit t; u = dropWhile isDecimalDigit t in
              (ds \<noteq> [] \<or> fs \<noteq> []) \<and> (u = [] \<or> isExponentPart u))
           else ds \<noteq> [] \<and> isExponentPart r))"

definition isStrDecimalLiteral :: "jstring \<Rightarrow> bool" where
  "isStrDecimalLiteral s =
     (case s of
        [] \<Rightarrow> False
      | c # t \<Rightarrow> if c = 0x2B \<or> c = 0x2D then isStrUnsignedDecimalLiteral t
                 else isStrUnsignedDecimalLiteral s)"

definition isNonDecimalIntegerLiteral :: "jstring \<Rightarrow> bool" where
  "isNonDecimalIntegerLiteral s =
     (case s of
        z # x # ds \<Rightarrow> z = 0x30 \<and> ds \<noteq> [] \<and>
          ((x = 0x78 \<or> x = 0x58) \<and> list_all isHexDigit ds
           \<or> (x = 0x6F \<or> x = 0x4F) \<and> list_all isOctalDigit ds
           \<or> (x = 0x62 \<or> x = 0x42) \<and> list_all isBinaryDigit ds)
      | _ \<Rightarrow> False)"

definition isStringNumericLiteral :: "jstring \<Rightarrow> bool" where
  "isStringNumericLiteral s =
     (let t = trim s in t = [] \<or> isStrDecimalLiteral t \<or> isNonDecimalIntegerLiteral t)"

definition isNaN_Number :: "jstring \<Rightarrow> bool" where
  "isNaN_Number s = (\<not> isStringNumericLiteral s)"

section \<open>The survey flow controller (\<open>SurveyPage\<close>)\<close>

text \<open>
  The form values of \<open>useForm\<close>. A \<open>NumberInput\<close> field holds a number, or the empty string
  when the field has been cleared (the source tests \<open>f.avgHours === ''\<close>); \<open>level\<close> is an
  array filled by index (\<open>level.0\<close>, \<open>level.1\<close>, ...), so it can have holes: \<open>None\<close> is a
  hole, \<open>Some v\<close> an element that is present.

  The phone field starts as the string \<open>''\<close> and is bound to a \<open>NumberInput\<close> too, one that
  keeps leading zeros: it holds a string, or a number once the user has typed a number
  that the widget stores as such.
\<close>

datatype number_input = NumberValue int | EmptyString

datatype phone_input = PhoneString jstring | PhoneNumber int

record form_values =
  name :: jstring
  phone :: phone_input
  nickname :: jstring
  gender :: jstring
  birthday :: int
  height :: number_input
  weight :: number_input
  interests :: "jstring list"
  avgHours :: number_input
  regularTime :: "jstring list"
  level :: "jstring option list"

text \<open>
  \<open>v < k\<close> and \<open>v >= k\<close> for a field value \<open>v\<close> and a number \<open>k\<close>: JavaScript converts the
  empty string to the number 0 before comparing.
\<close>

definition toNumber :: "number_input \<Rightarrow> int" where
  "toNumber v = (case v of NumberValue n \<Rightarrow> n | EmptyString \<Rightarrow> 0)"

text \<open>
  \<open>a.filter(() => true)\<close> visits only the indices that are present, so it returns the
  elements of \<open>a\<close> without the holes.
\<close>

definition filter_present :: "'a option list \<Rightarrow> 'a list" where
  "filter_present a = map the (filter (\<lambda>x. x \<noteq> None) a)"

record notification =
  color :: jstring
  title :: jstring
  message :: jstring

text \<open>The string literals of \<open>handleNextQ\<close>, as UTF-16 code units, in source order.\<close>

definition str_privacy_title :: jstring where
  "str_privacy_title = [0x8ACB, 0x8A73, 0x95B1, 0x96B1, 0x79C1, 0x7FA4, 0x653F, 0x7B56, 0xFF01]"

definition str_privacy_message :: jstring where
  "str_privacy_message = [0x95B1, 0x8B80, 0x5B8C, 0x8A18, 0x5F97, 0x52FE, 0x9078, 0x65B9, 0x6846,
     0x8868, 0x793A, 0x540C, 0x610F, 0x5594, 0xFF5E]"

definition str_name :: jstring where
  "str_name = [0x59D3, 0x540D]"

definition str_phone :: jstring where
  "str_phone = [0x624B, 0x6A5F]"

definition str_nickname :: jstring where
  "str_nickname = [0x66B1, 0x7A31]"

definition str_gender :: jstring where
  "str_gender = [0x6027, 0x5225]"

definition str_interests :: jstring where
  "str_interests = [0x8208, 0x8DA3]"

definition str_avgHours :: jstring where
  "str_avgHours = [0x904B, 0x52D5, 0x6642, 0x9577]"

definition str_regularTime :: jstring where
  "str_regularTime = [0x904B, 0x52D5, 0x6642, 0x6BB5]"

text \<open>The ideographic comma U+3001 that separates the field names.\<close>

definition str_comma :: jstring where
  "str_comma = [0x3001]"

definition str_blank_title :: jstring where
  "str_blank_title = [0x5C1A, 0x6709, 0x6B04, 0x4F4D, 0x672A, 0x586B, 0x5BEB, 0xFF01]"

definition str_blank_suffix :: jstring where
  "str_blank_suffix = [0x4E0D, 0x53EF, 0x7A7A, 0x767D]"

definition str_phone_title :: jstring where
  "str_phone_title = [0x624B, 0x6A5F, 0x865F, 0x78BC, 0x4E0D, 0x6B63, 0x78BA, 0xFF01]"

definition str_phone_message :: jstring where
  "str_phone_message = [0x8ACB, 0x518D, 0x6AA2, 0x67E5, 0x4E00, 0x6B21, 0x60A8, 0x7684, 0x624B,
     0x6A5F, 0x865F, 0x78BC]"

definition str_body_title :: jstring where
  "str_body_title = [0x8EAB, 0x9AD8, 0x6216, 0x9AD4, 0x91CD, 0x53EF, 0x80FD, 0x4E0D, 0x6B63,
     0x78BA, 0xFF01]"

definition str_body_message :: jstring where
  "str_body_message = [0x8ACB, 0x518D, 0x6AA2, 0x67E5, 0x4E00, 0x6B21, 0x60A8, 0x8F38, 0x5165,
     0x7684, 0x8EAB, 0x9AD8, 0x3001, 0x9AD4, 0x91CD, 0xFF5E]"

definition str_hours_title :: jstring where
  "str_hours_title = [0x6BCF, 0x9031, 0x5E73, 0x5747, 0x6642, 0x9577, 0x932F, 0x8AA4, 0xFF01]"

definition str_hours_message :: jstring where
  "str_hours_message = [0x518D, 0x6AA2, 0x67E5, 0x4E00, 0x6B21, 0x5427, 0xFF5E]"

definition str_level_title :: jstring where
  "str_level_title = [0x5C1A, 0x6709, 0x6B04, 0x4F4D, 0x672A, 0x586B, 0x5BEB, 0x5594, 0xFF01]"

definition str_level_message :: jstring where
  "str_level_message = [0x518D, 0x6AA2, 0x67E5, 0x4E00, 0x904D, 0x662F, 0x5426, 0x6240, 0x6709,
     0x984C, 0x76EE, 0x90FD, 0x586B, 0x5BEB, 0x4E86, 0x5427, 0xFF01]"

text \<open>
  The state of \<open>SurveyPage\<close>: the step index, the privacy check box, the form, and the
  notifications shown so far (\<open>notifications.show\<close> appends one).
\<close>

record survey =
  qnum :: int
  privacyCheck :: bool
  formValues :: form_values
  shown :: "notification list"

definition notify :: "jstring \<Rightarrow> jstring \<Rightarrow> survey \<Rightarrow> survey" where
  "notify t m s = s\<lparr>shown := shown s @ [\<lparr>color = ascii ''red'', title = t, message = m\<rparr>]\<rparr>"

text \<open>\<open>errorMessage += (errorMessage === '') ? label : comma + label\<close>, done when \<open>b\<close> holds.\<close>

definition addLabel :: "bool \<Rightarrow> jstring \<Rightarrow> jstring \<Rightarrow> jstring" where
  "addLabel b label errorMessage =
     (if b then errorMessage @ (if errorMessage = [] then label else str_comma @ label)
      else errorMessage)"

text \<open>The last statement of \<open>handleNextQ\<close>: \<open>if (qnum < 6) setQnum(qnum + 1)\<close>.\<close>

definition advance :: "survey \<Rightarrow> survey" where
  "advance s = (if qnum s < 6 then s\<lparr>qnum := qnum s + 1\<rparr> else s)"

text \<open>
  \<open>handleNextQ\<close>, one branch per \<open>case\<close> of the \<open>switch\<close>; a \<open>return\<close> after a notification
  leaves the step index as it is, a \<open>break\<close> (and any step without a case) reaches \<open>advance\<close>.
  The result is the state after the call, or the exception the call throws: at step 1 the
  second statement calls \<open>f.phone.trim()\<close>, and a number has no method \<open>trim\<close>, so for a
  phone that is a number the call throws a \<open>TypeError\<close> there, before any notification and
  before \<open>setQnum\<close>.
\<close>

datatype js_error = TypeError

definition handleNextQ :: "survey \<Rightarrow> js_error + survey" where
  "handleNextQ s =
     (let f = formValues s in
      if qnum s = 0 then
        Inr (if \<not> privacyCheck s then notify str_privacy_title str_privacy_message s
             else advance s)
      else if qnum s = 1 then
        (case phone f of
           PhoneNumber n \<Rightarrow> Inl TypeError
         | PhoneString p \<Rightarrow>
             (let errorMessage = addLabel (trim (name f) = []) str_name [];
                  errorMessage = addLabel (trim p = []) str_phone errorMessage;
                  errorMessage = addLabel (trim (nickname f) = []) str_nickname errorMessage;
                  errorMessage = addLabel (trim (gender f) = []) str_gender errorMessage
              in Inr (if errorMessage \<noteq> [] then
                        notify str_blank_title (errorMessage @ str_blank_suffix) s
                      else if length p \<noteq> 10 \<or> isNaN_Number p
                              \<or> charAt p 0 \<noteq> Some 0x30 \<or> charAt p 1 \<noteq> Some 0x39 then
                        notify str_phone_title str_phone_message s
                      else advance s)))
      else if qnum s = 2 then
        Inr (if toNumber (height f) < 30 \<or> toNumber (weight f) < 15 then
               notify str_body_title str_body_message s
             else advance s)
      else if qnum s = 3 then
        (let errorMessage = addLabel (interests f = []) str_interests [];
             errorMessage = addLabel (avgHours f = EmptyString) str_avgHours errorMessage;
             errorMessage = addLabel (regularTime f = []) str_regularTime errorMessage
         in Inr (if errorMessage \<noteq> [] then
                   notify str_blank_title (errorMessage @ str_blank_suffix) s
                 else if toNumber (avgHours f) \<ge> 168 then
                   notify str_hours_title str_hours_message s
                 else advance (s\<lparr>formValues := f\<lparr>level := []\<rparr>\<rparr>)))
      else if qnum s = 4 then
        Inr (if length (interests f) \<noteq> length (filter_present (level f)) then
               notify str_level_title str_level_message s
             else advance s)
      else Inr (advance s))"

text \<open>
  The shape the specification gives for a phone number: \<open>09\<close> followed by eight digits.
\<close>

definition phone_09_8digits :: "jstring \<Rightarrow> bool" where
  "phone_09_8digits p =
     (length p = 10 \<and> take 2 p = ascii ''09'' \<and> list_all isDecimalDigit (drop 2 p))"

text \<open>A filled-in form and a survey at a given step, used to run the model.\<close>

definition example_form :: form_values where
  "example_form =
     \<lparr>name = ascii ''Lin'', phone = PhoneString (ascii ''0912345678''), nickname = ascii ''lin'',
      gender = ascii ''F'', birthday = 946684800000, height = NumberValue 160,
      weight = NumberValue 50, interests = [ascii ''1'', ascii ''2''],
      avgHours = NumberValue 10, regularTime = [ascii ''7''], level = [Some (ascii ''3'')]\<rparr>"

definition example_survey :: "int \<Rightarrow> form_values \<Rightarrow> survey" where
  "example_survey q f = \<lparr>qnum = q, privacyCheck = True, formValues = f, shown = []\<rparr>"

section \<open>Chat messages (\<open>Message\<close>, \<open>formatTime\<close>, \<open>formatServiceMessage\<close>)\<close>

text \<open>
  The type \<open>Message\<close>; the nested object \<open>from\<close> is flattened into \<open>from_id\<close> and
  \<open>from_nickname\<close>, and \<open>id\<close> and \<open>type\<close> are \<open>msg_id\<close> and \<open>msg_type\<close>. Numbers that are
  identifiers, type tags and epoch milliseconds are integers.
\<close>

record Message =
  msg_id :: int
  from_id :: int
  from_nickname :: jstring
  createdAt :: int
  msg_type :: int
  content :: "jstring option"

text \<open>
  \<open>MessageType\<close> is imported from \<open>@/constants\<close>, which is not among the sources: the two
  tags the code reads are taken as a parameter.
\<close>

record MessageType =
  InviteCreated :: int
  UserJoined :: int

definition str_invite_created :: jstring where
  "str_invite_created = [0x5DF2, 0x767C, 0x8D77, 0x9080, 0x7D04]"

definition str_user_joined :: jstring where
  "str_user_joined = [0x5DF2, 0x52A0, 0x5165, 0x9080, 0x7D04]"

text \<open>
  \<open>formatServiceMessage\<close>: two \<open>if\<close>s that return a text; a message of any other type
  falls off the end of the function, which returns \<open>undefined\<close> (here \<open>None\<close>).
\<close>

definition formatServiceMessage :: "MessageType \<Rightarrow> Message \<Rightarrow> jstring option" where
  "formatServiceMessage T m =
     (if msg_type m = InviteCreated T then Some (from_nickname m @ str_invite_created)
      else if msg_type m = UserJoined T then Some (from_nickname m @ str_user_joined)
      else None)"

definition str_pm :: jstring where
  "str_pm = [0x4E0B, 0x5348]"

definition str_am :: jstring where
  "str_am = [0x4E0A, 0x5348]"

text \<open>\<open>String(n)\<close> for a natural number, and \<open>s.padStart(n, c)\<close> for a one-character pad.\<close>

fun decimal :: "nat \<Rightarrow> jstring" where
  "decimal n =
     (if n < 10 then [0x30 + of_nat n] else decimal (n div 10) @ [0x30 + of_nat (n mod 10)])"

definition padStart :: "nat \<Rightarrow> 16 word \<Rightarrow> jstring \<Rightarrow> jstring" where
  "padStart n c s = replicate (n - length s) c @ s"

text \<open>
  \<open>formatTime\<close>. The hour and minute of a \<open>Date\<close> in the browser's time zone are the
  platform's; \<open>getHours\<close> and \<open>getMinutes\<close> are parameters giving them for a time stamp.
  For a time stamp out of the range of \<open>Date\<close> they return \<open>NaN\<close>, here \<open>None\<close>: every
  comparison with \<open>NaN\<close> is false, \<open>NaN % 12\<close> is \<open>NaN\<close> and \<open>String(NaN)\<close> is \<open>NaN\<close>.
\<close>

definition numberToString :: "nat option \<Rightarrow> jstring" where
  "numberToString n = (case n of None \<Rightarrow> ascii ''NaN'' | Some k \<Rightarrow> decimal k)"

definition formatTime ::
  "(int \<Rightarrow> nat option) \<Rightarrow> (int \<Rightarrow> nat option) \<Rightarrow> int \<Rightarrow> jstring" where
  "formatTime getHours getMinutes time =
     (let h = getHours time;
          m = getMinutes time;
          amPm = (if (case h of None \<Rightarrow> False | Some k \<Rightarrow> k \<ge> 12) then str_pm else str_am);
          h = map_option (\<lambda>k. k mod 12) h;
          h = (if h = Some 0 then Some 12 else h)
      in amPm @ ascii '' '' @ numberToString h @ ascii '':''
         @ padStart 2 0x30 (numberToString m))"

text \<open>
  What \<open>ChatPage\<close> renders for one message (the body of \<open>messages.map\<close>): the \<open>self\<close> and
  \<open>service\<close> classes and, for an ordinary message, the sender's name (unless it is the
  user's own), the content and the time; for a service message, the result of
  \<open>formatServiceMessage\<close> and the time. \<open>user\<close> is the identifier of the signed-in user, if any.
\<close>

datatype message_body =
    Bubble "jstring option" "jstring option" jstring
  | ServiceMessage "jstring option" jstring

record message_view =
  key :: int
  self :: bool
  service :: bool
  body :: message_body

definition renderMessage ::
  "MessageType \<Rightarrow> (int \<Rightarrow> nat option) \<Rightarrow> (int \<Rightarrow> nat option) \<Rightarrow> int option \<Rightarrow> Message
     \<Rightarrow> message_view" where
  "renderMessage T getHours getMinutes user m =
     (let isSelf = (Some (from_id m) = user);
          isService = (msg_type m \<noteq> 0)
      in \<lparr>key = msg_id m, self = isSelf, service = isService,
          body = (if \<not> isService then
                    Bubble (if \<not> isSelf then Some (from_nickname m) else None) (content m)
                      (formatTime getHours getMinutes (createdAt m))
                  else
                    ServiceMessage (formatServiceMessage T m)
                      (formatTime getHours getMinutes (createdAt m)))\<rparr>)"

text \<open>A message of a type that is none of the known ones, used to run the model.\<close>

definition example_types :: MessageType where
  "example_types = \<lparr>InviteCreated = 1, UserJoined = 2\<rparr>"

definition example_message :: "int \<Rightarrow> int \<Rightarrow> Message" where
  "example_message i t =
     \<lparr>msg_id = i, from_id = 7, from_nickname = ascii ''amy'', createdAt = 1700000000000,
      msg_type = t, content = None\<rparr>"

section \<open>The chat page (\<open>useMessages\<close> and \<open>ChatPage\<close>)\<close>

text \<open>
  The page is modelled as one mounted React component: a record of its state, a function for
  the body of each \<open>useEffect\<close>, for \<open>send\<close> and for \<open>handleKeyDown\<close>, and a step function
  that applies one event and then re-renders until no effect has anything left to do.

  An awaited request is a closure that stays in the state until the event that settles it:
  \<open>fetches\<close> holds one entry per call of \<open>go\<close>, with the values the closure captured at the
  render that created it (\<open>chatId\<close>, \<open>messages\<close>, and the \<open>sinceId\<close> computed from them), its
  own \<open>canceled\<close> variable, and whether it is still waiting. What the page does to the
  outside is logged: the GET and POST requests, the calls of \<open>window.scrollTo\<close>, of
  \<open>console.error\<close> and of \<open>router.replace\<close>.
\<close>

datatype fetch_error = HTTPError int | OtherError

datatype response = Resolved "Message list" | Rejected fetch_error

record go_closure =
  g_chatId :: jstring
  g_messages :: "Message list option"
  g_sinceId :: int
  g_canceled :: bool
  g_pending :: bool

record scroll_el =
  scrollHeight :: int
  clientHeight :: int
  scrollTop :: int

text \<open>
  A call of \<open>window.scrollTo\<close>: made by the first-load effect, or by the auto-scroll effect
  for a newest message id; the number is the \<open>top\<close> it asks for.
\<close>

datatype scroll_origin = FirstLoad | NewMessage int

record chat =
  \<comment> \<open>the route and the browser\<close>
  chatId :: "jstring option"
  scrollEl :: "scroll_el option"
  pos :: nat
  \<comment> \<open>the state of \<open>useMessages\<close>\<close>
  isLoading :: bool
  error :: "fetch_error option"
  reloadCounter :: int
  messages :: "Message list option"
  \<comment> \<open>the state of \<open>ChatPage\<close>\<close>
  composingMessage :: jstring
  firstScroll :: bool
  autoScroll :: bool
  lastAutoScrolledMessageId :: int
  isSendingMessage :: bool
  \<comment> \<open>closures and timers that are alive\<close>
  fetches :: "go_closure list"
  cleanup :: "nat option"
  interval :: bool
  sends :: "bool list"
  \<comment> \<open>what the page has done to the outside\<close>
  requests :: "(jstring \<times> int) list"
  posts :: "(jstring option \<times> jstring) list"
  scrolls :: "(scroll_origin \<times> int) list"
  console :: "fetch_error list"
  replaced :: "jstring list"

text \<open>
  \<open>pos\<close> stands for the position object of \<open>useWindowScroll\<close>: every scroll or resize event
  stores a new object, so the dependency \<open>[pos]\<close> changes at every such event; the model
  numbers the objects. \<open>cleanup\<close> is the index in \<open>fetches\<close> of the closure whose
  \<open>canceled = true\<close> clean-up function React holds for the fetch effect, if it holds one.
  \<open>sends\<close> has one entry per POST of \<open>send\<close>: is it still awaited.
\<close>

text \<open>\<open>!chatId\<close> is false for a non-empty string only.\<close>

definition truthy :: "jstring option \<Rightarrow> bool" where
  "truthy c = (case c of None \<Rightarrow> False | Some v \<Rightarrow> v \<noteq> [])"

text \<open>
  The cursor: the id of the last element of a non-empty array, else 0. It is \<open>sinceId\<close> in
  \<open>go\<close> and \<open>lastMessageId\<close> in \<open>ChatPage\<close> (the same expression twice in the source).
\<close>

definition sinceId_of :: "Message list option \<Rightarrow> int" where
  "sinceId_of ms = (case ms of None \<Rightarrow> 0 | Some l \<Rightarrow> if l \<noteq> [] then msg_id (last l) else 0)"

definition lastMessageId :: "'a chat_scheme \<Rightarrow> int" where
  "lastMessageId s = sinceId_of (messages s)"

definition maxScrollTop :: "scroll_el \<Rightarrow> int" where
  "maxScrollTop el = scrollHeight el - clientHeight el"

subsection \<open>The effects\<close>

text \<open>
  An effect body reads the values of the render it belongs to (\<open>snap\<close>) and queues state
  updates; \<open>a\<close> is the state the updates of this commit have produced so far.

  The fetch effect of \<open>useMessages\<close>, dependencies \<open>[chatId, reloadCounter]\<close>. Running it
  again first runs the clean-up of the previous run, which sets that run's \<open>canceled\<close>.
  Then, unless \<open>chatId\<close> is falsy, \<open>go()\<close> runs up to its \<open>await\<close>: it computes \<open>sinceId\<close>,
  sets \<open>isLoading\<close> and clears \<open>error\<close>, and issues the GET request.
\<close>

definition run_cleanup :: "chat \<Rightarrow> chat" where
  "run_cleanup a =
     (case cleanup a of
        None \<Rightarrow> a
      | Some i \<Rightarrow> a\<lparr>fetches := (fetches a)[i := (fetches a ! i)\<lparr>g_canceled := True\<rparr>],
                    cleanup := None\<rparr>)"

definition fetch_effect :: "chat \<Rightarrow> chat \<Rightarrow> chat" where
  "fetch_effect snap a =
     (let a = run_cleanup a in
      if \<not> truthy (chatId snap) then a
      else
        (let sinceId = sinceId_of (messages snap) in
         a\<lparr>isLoading := True,
           error := None,
           requests := requests a @ [(the (chatId snap), sinceId)],
           fetches := fetches a @
             [\<lparr>g_chatId = the (chatId snap), g_messages = messages snap, g_sinceId = sinceId,
               g_canceled = False, g_pending = True\<rparr>],
           cleanup := Some (length (fetches a))\<rparr>))"

text \<open>
  The rest of \<open>go()\<close>, after the \<open>await\<close>, when the request of closure \<open>i\<close> settles with \<open>r\<close>.
  On success a canceled closure returns at once; otherwise the response is appended when
  the captured \<open>messages\<close> is \<open>null\<close> or the response is not empty, and \<open>isLoading\<close> is
  cleared. On failure the \<open>catch\<close> block logs and stores the error, and \<open>isLoading\<close> is
  cleared; the \<open>catch\<close> block does not read \<open>canceled\<close>.
\<close>

definition go_resume :: "nat \<Rightarrow> response \<Rightarrow> chat \<Rightarrow> chat" where
  "go_resume i r s =
     (let c = fetches s ! i;
          a = s\<lparr>fetches := (fetches s)[i := c\<lparr>g_pending := False\<rparr>]\<rparr>
      in case r of
           Resolved m \<Rightarrow>
             if g_canceled c then a
             else
               (let a = (if g_messages c = None \<or> m \<noteq> [] then
                           a\<lparr>messages := Some (case messages a of None \<Rightarrow> m
                                                | Some oldM \<Rightarrow> oldM @ m)\<rparr>
                         else a)
                in a\<lparr>isLoading := False\<rparr>)
         | Rejected e \<Rightarrow>
             a\<lparr>console := console a @ [e], error := Some e, isLoading := False\<rparr>)"

text \<open>
  The interval effect of \<open>useMessages\<close>, dependencies \<open>[isLoading]\<close>: the clean-up clears the
  interval of the previous run; a new 2000 ms interval is set unless \<open>isLoading\<close>.
\<close>

definition interval_effect :: "chat \<Rightarrow> chat \<Rightarrow> chat" where
  "interval_effect snap a = (if isLoading snap then a\<lparr>interval := False\<rparr> else a\<lparr>interval := True\<rparr>)"

text \<open>The effect on \<open>[error]\<close>: a 401 response sends the user back to the list of chats.\<close>

definition unauthorized_effect :: "chat \<Rightarrow> chat \<Rightarrow> chat" where
  "unauthorized_effect snap a =
     (if error snap = Some (HTTPError 401) then a\<lparr>replaced := replaced a @ [ascii ''/match/chats'']\<rparr>
      else a)"

text \<open>The first-load effect, dependencies \<open>[firstScroll, messages, isLoading]\<close>.\<close>

definition first_scroll_effect :: "chat \<Rightarrow> chat \<Rightarrow> chat" where
  "first_scroll_effect snap a =
     (if \<not> firstScroll snap then a
      else if messages snap = None then a
      else if isLoading snap then a
      else case scrollEl snap of
             None \<Rightarrow> a
           | Some el \<Rightarrow> a\<lparr>firstScroll := False,
                          scrolls := scrolls a @ [(FirstLoad, maxScrollTop el)]\<rparr>)"

text \<open>The effect on \<open>[pos]\<close>: auto-scroll is on when the bottom is less than 64 away.\<close>

definition position_effect :: "chat \<Rightarrow> chat \<Rightarrow> chat" where
  "position_effect snap a =
     (case scrollEl snap of
        None \<Rightarrow> a
      | Some el \<Rightarrow> a\<lparr>autoScroll := (maxScrollTop el - scrollTop el < 64)\<rparr>)"

text \<open>
  The auto-scroll effect, dependencies
  \<open>[lastMessageId, autoScroll, lastAutoScrolledMessageId]\<close>.
\<close>

definition auto_scroll_effect :: "chat \<Rightarrow> chat \<Rightarrow> chat" where
  "auto_scroll_effect snap a =
     (if \<not> autoScroll snap then a
      else case scrollEl snap of
             None \<Rightarrow> a
           | Some el \<Rightarrow>
               if lastMessageId snap = lastAutoScrolledMessageId snap then a
               else a\<lparr>lastAutoScrolledMessageId := lastMessageId snap,
                      scrolls := scrolls a @ [(NewMessage (lastMessageId snap), maxScrollTop el)]\<rparr>)"

subsection \<open>Rendering and committing\<close>

text \<open>
  After a render React runs, in the order of the source, the effects whose dependencies
  differ from those of the previous render (all of them at the first render). Every effect
  of one commit sees the values of that render; their state updates are applied together
  and lead to the next render.
\<close>

datatype effect =
  FetchEffect | IntervalEffect | UnauthorizedEffect | FirstScrollEffect | PositionEffect
  | AutoScrollEffect

definition changed :: "chat \<Rightarrow> chat \<Rightarrow> effect \<Rightarrow> bool" where
  "changed prev cur e =
     (case e of
        FetchEffect \<Rightarrow> chatId prev \<noteq> chatId cur \<or> reloadCounter prev \<noteq> reloadCounter cur
      | IntervalEffect \<Rightarrow> isLoading prev \<noteq> isLoading cur
      | UnauthorizedEffect \<Rightarrow> error prev \<noteq> error cur
      | FirstScrollEffect \<Rightarrow>
          firstScroll prev \<noteq> firstScroll cur \<or> messages prev \<noteq> messages cur
          \<or> isLoading prev \<noteq> isLoading cur
      | PositionEffect \<Rightarrow> pos prev \<noteq> pos cur
      | AutoScrollEffect \<Rightarrow>
          lastMessageId prev \<noteq> lastMessageId cur \<or> autoScroll prev \<noteq> autoScroll cur
          \<or> lastAutoScrolledMessageId prev \<noteq> lastAutoScrolledMessageId cur)"

definition commit :: "(effect \<Rightarrow> bool) \<Rightarrow> chat \<Rightarrow> chat" where
  "commit due snap =
     (let a = snap;
          a = (if due FetchEffect then fetch_effect snap a else a);
          a = (if due IntervalEffect then interval_effect snap a else a);
          a = (if due UnauthorizedEffect then unauthorized_effect snap a else a);
          a = (if due FirstScrollEffect then first_scroll_effect snap a else a);
          a = (if due PositionEffect then position_effect snap a else a);
          a = (if due AutoScrollEffect then auto_scroll_effect snap a else a)
      in a)"

text \<open>
  \<open>rerender prev cur\<close>: the commit of the render of \<open>cur\<close>, when \<open>prev\<close> was rendered last.
  \<open>settle\<close> renders three times in a row; for this page that is always enough: a further
  render would run no effect (lemma \<open>settle_quiescent\<close> below).
\<close>

definition rerender :: "chat \<Rightarrow> chat \<Rightarrow> chat" where
  "rerender prev cur = commit (changed prev cur) cur"

definition settle :: "chat \<Rightarrow> chat \<Rightarrow> chat" where
  "settle prev cur =
     (let r1 = rerender prev cur;
          r2 = rerender cur r1
      in rerender r1 r2)"

subsection \<open>Sending\<close>

text \<open>
  \<open>send\<close> up to its \<open>await\<close>: nothing while a send is in flight; else it sets
  \<open>isSendingMessage\<close> and posts \<open>composingMessage\<close> as it is.
\<close>

definition send :: "chat \<Rightarrow> chat" where
  "send s =
     (if isSendingMessage s then s
      else s\<lparr>isSendingMessage := True,
             posts := posts s @ [(chatId s, composingMessage s)],
             sends := sends s @ [True]\<rparr>)"

text \<open>
  The rest of \<open>send\<close> when POST \<open>i\<close> settles, with \<open>None\<close> for success or the error thrown:
  on success \<open>setAutoScroll(true)\<close>, \<open>reload()\<close> (which adds one to \<open>reloadCounter\<close>) and
  \<open>setComposingMessage('')\<close>; on failure \<open>console.error\<close>; then \<open>isSendingMessage\<close> is
  cleared.
\<close>

definition send_resume :: "nat \<Rightarrow> fetch_error option \<Rightarrow> chat \<Rightarrow> chat" where
  "send_resume i r s =
     (let a = s\<lparr>sends := (sends s)[i := False]\<rparr>;
          a = (case r of
                 None \<Rightarrow> a\<lparr>autoScroll := True, reloadCounter := reloadCounter a + 1,
                            composingMessage := []\<rparr>
               | Some e \<Rightarrow> a\<lparr>console := console a @ [e]\<rparr>)
      in a\<lparr>isSendingMessage := False\<rparr>)"

record key_event =
  isComposing :: bool
  keyCode :: int
  key :: jstring

definition handleKeyDown :: "key_event \<Rightarrow> chat \<Rightarrow> chat" where
  "handleKeyDown ev s =
     (if \<not> (isComposing ev \<or> keyCode ev = 229) \<and> key ev = ascii ''Enter''
         \<and> trim (composingMessage s) \<noteq> []
      then send s else s)"

subsection \<open>Events\<close>

text \<open>
  What can happen to the mounted page: the route's \<open>chatId\<close> changes; the interval fires;
  the request of a \<open>go\<close> settles; the window is scrolled (or resized) to a \<open>scrollTop\<close>; the
  content or the viewport changes height; the user types, presses a key in the input or
  clicks the send button; a POST of \<open>send\<close> settles.
\<close>

datatype event =
    ChatIdChanged "jstring option"
  | Tick
  | FetchSettled nat response
  | WindowScrolled int
  | Layout int int
  | Input jstring
  | KeyDown key_event
  | ClickSend
  | SendSettled nat "fetch_error option"

text \<open>
  The state updates of the handler of an event. The interval fires only while it is set; a
  request settles once; the input takes no text while it is disabled.
\<close>

definition handle :: "event \<Rightarrow> chat \<Rightarrow> chat" where
  "handle e s =
     (case e of
        ChatIdChanged c \<Rightarrow> s\<lparr>chatId := c\<rparr>
      | Tick \<Rightarrow> if interval s then s\<lparr>reloadCounter := reloadCounter s + 1\<rparr> else s
      | FetchSettled i r \<Rightarrow>
          if i < length (fetches s) \<and> g_pending (fetches s ! i) then go_resume i r s else s
      | WindowScrolled t \<Rightarrow>
          s\<lparr>scrollEl := map_option (\<lambda>el. el\<lparr>scrollTop := t\<rparr>) (scrollEl s), pos := pos s + 1\<rparr>
      | Layout h c \<Rightarrow>
          s\<lparr>scrollEl := map_option (\<lambda>el. el\<lparr>scrollHeight := h, clientHeight := c\<rparr>) (scrollEl s)\<rparr>
      | Input v \<Rightarrow> if isSendingMessage s then s else s\<lparr>composingMessage := v\<rparr>
      | KeyDown ev \<Rightarrow> handleKeyDown ev s
      | ClickSend \<Rightarrow> send s
      | SendSettled i r \<Rightarrow>
          if i < length (sends s) \<and> sends s ! i then send_resume i r s else s)"

definition step :: "event \<Rightarrow> chat \<Rightarrow> chat" where
  "step e s = settle s (handle e s)"

definition run :: "event list \<Rightarrow> chat \<Rightarrow> chat" where
  "run es s = foldl (\<lambda>s e. step e s) s es"

text \<open>
  Mounting the page for a \<open>chatId\<close> and a scrolling element: the initial values of the
  \<open>useState\<close> calls, the first commit, which runs every effect, and the renders after it.
\<close>

definition initial :: "jstring option \<Rightarrow> scroll_el option \<Rightarrow> chat" where
  "initial c el =
     \<lparr>chatId = c, scrollEl = el, pos = 0,
      isLoading = True, error = None, reloadCounter = 0, messages = None,
      composingMessage = [], firstScroll = True, autoScroll = True,
      lastAutoScrolledMessageId = - 1, isSendingMessage = False,
      fetches = [], cleanup = None, interval = False, sends = [],
      requests = [], posts = [], scrolls = [], console = [], replaced = []\<rparr>"

definition mount :: "jstring option \<Rightarrow> scroll_el option \<Rightarrow> chat" where
  "mount c el =
     (let r1 = commit (\<lambda>e. True) (initial c el);
          r2 = rerender (initial c el) r1
      in rerender r1 r2)"

subsection \<open>Notions used to state and prove the properties\<close>

text \<open>
  When the first-load effect and the auto-scroll effect, once run, call \<open>window.scrollTo\<close>
  (the conjunction of the early returns they pass), and the \<open>top\<close> they ask for.
\<close>

definition first_fires :: "chat \<Rightarrow> bool" where
  "first_fires s = (firstScroll s \<and> messages s \<noteq> None \<and> \<not> isLoading s \<and> scrollEl s \<noteq> None)"

definition auto_fires :: "chat \<Rightarrow> bool" where
  "auto_fires s =
     (autoScroll s \<and> scrollEl s \<noteq> None \<and> lastMessageId s \<noteq> lastAutoScrolledMessageId s)"

definition bottom :: "chat \<Rightarrow> int" where
  "bottom s = maxScrollTop (the (scrollEl s))"

text \<open>
  The clean-up of the fetch effect seen on the list of closures, and the closure that a run
  of \<open>go\<close> creates.
\<close>

definition cancel :: "nat option \<Rightarrow> go_closure list \<Rightarrow> go_closure list" where
  "cancel k fs = (case k of None \<Rightarrow> fs | Some i \<Rightarrow> fs[i := (fs ! i)\<lparr>g_canceled := True\<rparr>])"

definition new_closure :: "chat \<Rightarrow> go_closure" where
  "new_closure snap =
     \<lparr>g_chatId = the (chatId snap), g_messages = messages snap,
      g_sinceId = sinceId_of (messages snap), g_canceled = False, g_pending = True\<rparr>"

text \<open>
  The value of \<open>autoScroll\<close> after \<open>settle\<close>, and whether the auto-scroll effect calls
  \<open>window.scrollTo\<close> during \<open>settle\<close>: in the first commit, or in the second one when the
  position effect has just switched auto-scroll on.
\<close>

definition near :: "chat \<Rightarrow> bool" where
  "near s = (maxScrollTop (the (scrollEl s)) - scrollTop (the (scrollEl s)) < 64)"

definition settled_autoScroll :: "chat \<Rightarrow> chat \<Rightarrow> bool" where
  "settled_autoScroll p c = (if pos p \<noteq> pos c \<and> scrollEl c \<noteq> None then near c else autoScroll c)"

definition settle_fires :: "chat \<Rightarrow> chat \<Rightarrow> bool" where
  "settle_fires p c =
     (scrollEl c \<noteq> None \<and> lastMessageId c \<noteq> lastAutoScrolledMessageId c
      \<and> (autoScroll c \<and> changed p c AutoScrollEffect
          \<or> \<not> autoScroll c \<and> settled_autoScroll p c))"

text \<open>
  A fetch is live when its request is still awaited and its closure has not been canceled,
  that is, superseded by a later run of the fetch effect.
\<close>

definition live :: "chat \<Rightarrow> nat \<Rightarrow> bool" where
  "live s i = (i < length (fetches s) \<and> g_pending (fetches s ! i) \<and> \<not> g_canceled (fetches s ! i))"

text \<open>
  The invariant of \<open>useMessages\<close>: a live fetch is the one whose clean-up React holds, it
  captured the \<open>messages\<close> and the \<open>chatId\<close> the state still has, and the interval is set
  exactly while \<open>isLoading\<close> is false.
\<close>

definition wf :: "chat \<Rightarrow> bool" where
  "wf s =
     ((\<forall>i. live s i \<longrightarrow>
          cleanup s = Some i \<and> g_messages (fetches s ! i) = messages s
          \<and> g_sinceId (fetches s ! i) = sinceId_of (messages s)
          \<and> chatId s = Some (g_chatId (fetches s ! i)) \<and> truthy (chatId s))
      \<and> (\<forall>i. cleanup s = Some i \<longrightarrow> i < length (fetches s))
      \<and> interval s = (\<not> isLoading s))"

text \<open>
  The contract of the server for \<open>GET chats/{chatId}/messages?sinceId=\<close>: the response is
  in ascending order of id (ids identify messages, so the order is strict) and every id is
  greater than the \<open>sinceId\<close> of the request. \<open>honours s e\<close> says so of the response that
  event \<open>e\<close> delivers in state \<open>s\<close>; \<open>contract es s\<close> says so of every event of the run
  \<open>es\<close> from \<open>s\<close>.
\<close>

definition ascending :: "Message list \<Rightarrow> bool" where
  "ascending ms = sorted_wrt (<) (map msg_id ms)"

definition honours :: "chat \<Rightarrow> event \<Rightarrow> bool" where
  "honours s e =
     (case e of
        FetchSettled i (Resolved m) \<Rightarrow>
          i < length (fetches s) \<longrightarrow>
            ascending m \<and> list_all (\<lambda>x. g_sinceId (fetches s ! i) < msg_id x) m
      | _ \<Rightarrow> True)"

fun contract :: "event list \<Rightarrow> chat \<Rightarrow> bool" where
  "contract [] s = True"
| "contract (e # es) s = (honours s e \<and> contract es (step e s))"

definition ascending_messages :: "chat \<Rightarrow> bool" where
  "ascending_messages s = (case messages s of None \<Rightarrow> True | Some l \<Rightarrow> ascending l)"

text \<open>
  An event is \<open>unspoilt\<close> unless it is the failure of a fetch that has been superseded
  while in flight; \<open>unspoilt_run\<close> says so of every event of a run.
\<close>

definition unspoilt :: "chat \<Rightarrow> event \<Rightarrow> bool" where
  "unspoilt s e =
     (case e of
        FetchSettled i (Rejected x) \<Rightarrow>
          \<not> (i < length (fetches s) \<and> g_pending (fetches s ! i) \<and> g_canceled (fetches s ! i))
      | _ \<Rightarrow> True)"

fun unspoilt_run :: "event list \<Rightarrow> chat \<Rightarrow> bool" where
  "unspoilt_run [] s = True"
| "unspoilt_run (e # es) s = (unspoilt s e \<and> unspoilt_run es (step e s))"

definition loading_while_live :: "chat \<Rightarrow> bool" where
  "loading_while_live s = (\<forall>i. live s i \<longrightarrow> isLoading s)"

text \<open>A page mounted for chat \<open>1\<close>, and a response of two messages, used to run the model.\<close>

definition example_el :: scroll_el where
  "example_el = \<lparr>scrollHeight = 1000, clientHeight = 600, scrollTop = 400\<rparr>"

definition example_chat :: chat where
  "example_chat = mount (Some (ascii ''1'')) (Some example_el)"

definition example_two :: "Message list" where
  "example_two = [example_message 3 0, example_message 5 0]"

section \<open>Properties of the survey flow controller\<close>

lemma digit_not_space: "isDecimalDigit c \<Longrightarrow> \<not> isWhiteSpace c"
  by (auto simp: isDecimalDigit_def isWhiteSpace_def word_le_nat_alt)

lemma digit_not_sign: "isDecimalDigit c \<Longrightarrow> c \<noteq> 0x2B \<and> c \<noteq> 0x2D"
  by (auto simp: isDecimalDigit_def)

lemma trim_digits: "list_all isDecimalDigit p \<Longrightarrow> trim p = p"
proof (cases p rule: rev_cases)
  case Nil
  then show ?thesis by (simp add: trim_def)
next
  case (snoc xs x)
  assume d: "list_all isDecimalDigit p"
  have "dropWhile isWhiteSpace p = p"
    using d by (cases p) (auto simp: digit_not_space)
  moreover have "dropWhile isWhiteSpace (rev p) = rev p"
    using d snoc by (auto simp: digit_not_space)
  ultimately show ?thesis by (simp add: trim_def)
qed

lemma digits_numeric:
  assumes "list_all isDecimalDigit p" "p \<noteq> []"
  shows "\<not> isNaN_Number p"
proof -
  obtain c t where p: "p = c # t" using assms(2) by (cases p) auto
  have tw: "takeWhile isDecimalDigit p = p" and dw: "dropWhile isDecimalDigit p = []"
    using assms(1) by (simp_all add: list_all_iff)
  have "isStrUnsignedDecimalLiteral p"
    using assms(2) by (simp add: isStrUnsignedDecimalLiteral_def tw dw)
  then have "isStrDecimalLiteral p"
    using p assms(1) digit_not_sign [of c] by (simp add: isStrDecimalLiteral_def)
  then show ?thesis
    using assms(1) by (simp add: isNaN_Number_def isStringNumericLiteral_def trim_digits)
qed

lemma take2:
  "length p = 10 \<Longrightarrow>
   (take 2 p = ascii ''09'') = (charAt p 0 = Some 0x30 \<and> charAt p 1 = Some 0x39)"
  by (cases p; cases "tl p") (auto simp: ascii_def charAt_def)

lemma pattern_digits: "phone_09_8digits p \<Longrightarrow> list_all isDecimalDigit p"
proof -
  assume a: "phone_09_8digits p"
  have "p = take 2 p @ drop 2 p" by simp
  moreover have "list_all isDecimalDigit (take 2 p)"
    using a by (simp add: phone_09_8digits_def ascii_def isDecimalDigit_def)
  moreover have "list_all isDecimalDigit (drop 2 p)"
    using a by (simp add: phone_09_8digits_def)
  ultimately show ?thesis by (metis list_all_append)
qed

lemma step1_nonblank:
  assumes "qnum s = 1" and "phone (formValues s) = PhoneString p"
    and "trim (name (formValues s)) \<noteq> []" and "trim p \<noteq> []"
    and "trim (nickname (formValues s)) \<noteq> []" and "trim (gender (formValues s)) \<noteq> []"
  shows "handleNextQ s =
     Inr (if length p = 10 \<and> \<not> isNaN_Number p \<and> take 2 p = ascii ''09''
          then s\<lparr>qnum := 2\<rparr> else notify str_phone_title str_phone_message s)"
  using assms take2 [of p]
  by (auto simp add: handleNextQ_def addLabel_def advance_def Let_def)

text \<open>
  At step 1, with the name, nickname and gender not blank and a phone that is a non-blank
  string, \<open>handleNextQ\<close> either advances to step 2 or shows the phone-number notification
  and stays. Every string of the shape \<open>09\<close> plus eight digits advances, and among the
  strings made of decimal digits only exactly those of that shape advance.
\<close>

lemma step1_string_phone:
  assumes "qnum s = 1" and "phone (formValues s) = PhoneString p"
    and "trim (name (formValues s)) \<noteq> []" and "trim p \<noteq> []"
    and "trim (nickname (formValues s)) \<noteq> []" and "trim (gender (formValues s)) \<noteq> []"
  shows "(handleNextQ s = Inr (s\<lparr>qnum := 2\<rparr>)
          \<or> handleNextQ s = Inr (notify str_phone_title str_phone_message s))
    \<and> (phone_09_8digits p \<longrightarrow> handleNextQ s = Inr (s\<lparr>qnum := 2\<rparr>))
    \<and> (list_all isDecimalDigit p \<longrightarrow>
          (handleNextQ s = Inr (s\<lparr>qnum := 2\<rparr>) \<longleftrightarrow> phone_09_8digits p))"
proof -
  let ?ok = "length p = 10 \<and> \<not> isNaN_Number p \<and> take 2 p = ascii ''09''"
  have eq: "handleNextQ s =
      Inr (if ?ok then s\<lparr>qnum := 2\<rparr> else notify str_phone_title str_phone_message s)"
    using assms by (rule step1_nonblank)
  have ne: "notify str_phone_title str_phone_message s \<noteq> s\<lparr>qnum := 2\<rparr>"
  proof
    assume "notify str_phone_title str_phone_message s = s\<lparr>qnum := 2\<rparr>"
    then have "qnum (notify str_phone_title str_phone_message s) = qnum (s\<lparr>qnum := 2\<rparr>)"
      by (rule arg_cong)
    then show False using assms(1) by (simp add: notify_def)
  qed
  have pat: "?ok" if "phone_09_8digits p"
  proof -
    have "p \<noteq> []" using that by (auto simp: phone_09_8digits_def)
    then have "\<not> isNaN_Number p"
      using digits_numeric [OF pattern_digits [OF that]] by blast
    then show ?thesis using that by (simp add: phone_09_8digits_def)
  qed
  have dig: "phone_09_8digits p" if "?ok" "list_all isDecimalDigit p"
  proof -
    have "list_all isDecimalDigit (drop 2 p)"
      using that(2) by (metis append_take_drop_id list_all_append)
    then show ?thesis using that(1) by (simp add: phone_09_8digits_def)
  qed
  show ?thesis
  proof (cases ?ok)
    case True
    have adv: "handleNextQ s = Inr (s\<lparr>qnum := 2\<rparr>)"
      by (rule trans [OF eq arg_cong [of _ _ Inr, OF if_P [OF True]]])
    show ?thesis using adv True dig by blast
  next
    case False
    have rej: "handleNextQ s = Inr (notify str_phone_title str_phone_message s)"
      by (rule trans [OF eq arg_cong [of _ _ Inr, OF if_not_P [OF False]]])
    have "handleNextQ s \<noteq> Inr (s\<lparr>qnum := 2\<rparr>)"
      using rej ne by (metis sum.inject(2))
    then show ?thesis using rej False pat by blast
  qed
qed

text \<open>
  Claim C8 fails on the code where the phone field holds a number, which is what it holds
  once the user has typed a number the widget stores as such. At step 1 \<open>handleNextQ\<close>
  then throws a \<open>TypeError\<close> at \<open>f.phone.trim()\<close>, whatever the other fields hold: it shows
  no notification, the phone-number one included, and the step does not change. The claim
  has every phone value that is not \<open>09\<close> plus eight digits rejected with that message.
\<close>

theorem step1_number_phone:
  assumes "qnum s = 1" and "phone (formValues s) = PhoneNumber n"
  shows "handleNextQ s = Inl TypeError
    \<and> handleNextQ s \<noteq> Inr (notify str_phone_title str_phone_message s)
    \<and> handleNextQ s \<noteq> Inr (s\<lparr>qnum := 2\<rparr>)"
  using assms by (simp add: handleNextQ_def)

text \<open>
  The user types the nine digits \<open>912345678\<close>, a phone number without its leading zero,
  and the field holds the number 912345678; the name, nickname and gender are not blank.
\<close>

theorem step1_number_phone_witness:
  "qnum (example_survey 1 (example_form\<lparr>phone := PhoneNumber 912345678\<rparr>)) = 1
   \<and> trim (name (example_form\<lparr>phone := PhoneNumber 912345678\<rparr>)) \<noteq> []
   \<and> trim (nickname (example_form\<lparr>phone := PhoneNumber 912345678\<rparr>)) \<noteq> []
   \<and> trim (gender (example_form\<lparr>phone := PhoneNumber 912345678\<rparr>)) \<noteq> []
   \<and> handleNextQ (example_survey 1 (example_form\<lparr>phone := PhoneNumber 912345678\<rparr>))
       = Inl TypeError
   \<and> handleNextQ (example_survey 1 (example_form\<lparr>phone := PhoneNumber 912345678\<rparr>))
       \<noteq> Inr (notify str_phone_title str_phone_message
                (example_survey 1 (example_form\<lparr>phone := PhoneNumber 912345678\<rparr>)))"
proof -
  let ?f = "example_form\<lparr>phone := PhoneNumber 912345678\<rparr>"
  let ?s = "example_survey 1 ?f"
  have q: "qnum ?s = 1" and f: "phone (formValues ?s) = PhoneNumber 912345678"
    by (simp_all add: example_survey_def)
  have n: "trim (name ?f) \<noteq> []" and k: "trim (nickname ?f) \<noteq> []" and g: "trim (gender ?f) \<noteq> []"
    by (simp_all add: example_form_def ascii_def trim_def isWhiteSpace_def)
  show ?thesis using step1_number_phone [OF q f] q n k g by blast
qed

text \<open>
  The string \<open>0912345678\<close> is accepted: the step advances to 2.
\<close>

lemma step1_accepts_0912345678:
  "handleNextQ (example_survey 1 example_form) = Inr ((example_survey 1 example_form)\<lparr>qnum := 2\<rparr>)"
proof -
  let ?s = "example_survey 1 example_form"
  have q: "qnum ?s = 1"
    by (simp add: example_survey_def)
  have f: "formValues ?s = example_form"
    by (simp add: example_survey_def)
  have e: "phone (formValues ?s) = PhoneString (ascii ''0912345678'')"
    unfolding f by (simp add: example_form_def)
  have n: "trim (name (formValues ?s)) \<noteq> []" and k: "trim (nickname (formValues ?s)) \<noteq> []"
    and g: "trim (gender (formValues ?s)) \<noteq> []"
    unfolding f by (simp_all add: example_form_def ascii_def trim_def isWhiteSpace_def)
  have h: "trim (ascii ''0912345678'') \<noteq> []"
    by (simp add: ascii_def trim_def isWhiteSpace_def)
  have p: "phone_09_8digits (ascii ''0912345678'')"
    by (simp add: phone_09_8digits_def ascii_def isDecimalDigit_def)
  show ?thesis
    using step1_string_phone [OF q e n h k g] p by blast
qed



section \<open>Properties of message rendering\<close>

text \<open>
  Claim C10. For a message whose type is neither \<open>InviteCreated\<close> nor \<open>UserJoined\<close>,
  \<open>formatServiceMessage\<close> returns no text (\<open>undefined\<close>); and when that type is not 0 the
  chat page takes the message for a service message and renders that missing text: a
  service bubble with the time and no event text.
\<close>

theorem unknown_service_type:
  assumes "msg_type m \<noteq> InviteCreated T" and "msg_type m \<noteq> UserJoined T"
  shows "formatServiceMessage T m = None
    \<and> (msg_type m \<noteq> 0 \<longrightarrow>
         service (renderMessage T getHours getMinutes user m)
         \<and> body (renderMessage T getHours getMinutes user m)
             = ServiceMessage None (formatTime getHours getMinutes (createdAt m)))"
  using assms by (simp add: formatServiceMessage_def renderMessage_def Let_def)

text \<open>A message of type 9, with \<open>InviteCreated = 1\<close> and \<open>UserJoined = 2\<close>.\<close>

theorem unknown_service_type_witness:
  "msg_type (example_message 3 9) \<noteq> InviteCreated example_types
   \<and> msg_type (example_message 3 9) \<noteq> UserJoined example_types
   \<and> msg_type (example_message 3 9) \<noteq> 0
   \<and> formatServiceMessage example_types (example_message 3 9) = None
   \<and> body (renderMessage example_types (\<lambda>t. Some 13) (\<lambda>t. Some 5) (Some 7) (example_message 3 9))
       = ServiceMessage None (formatTime (\<lambda>t. Some 13) (\<lambda>t. Some 5) (createdAt (example_message 3 9)))"
proof -
  have a: "msg_type (example_message 3 9) \<noteq> InviteCreated example_types"
    and b: "msg_type (example_message 3 9) \<noteq> UserJoined example_types"
    and c: "msg_type (example_message 3 9) \<noteq> 0"
    by (simp_all add: example_message_def example_types_def)
  show ?thesis
    using unknown_service_type [OF a b, of "\<lambda>t. Some 13" "\<lambda>t. Some 5" "Some 7"] a b c by blast
qed

section \<open>Properties of the chat page\<close>

lemma run_cleanup_same [simp]:
  "chatId (run_cleanup a) = chatId a"
  "scrollEl (run_cleanup a) = scrollEl a"
  "pos (run_cleanup a) = pos a"
  "isLoading (run_cleanup a) = isLoading a"
  "error (run_cleanup a) = error a"
  "reloadCounter (run_cleanup a) = reloadCounter a"
  "messages (run_cleanup a) = messages a"
  "composingMessage (run_cleanup a) = composingMessage a"
  "firstScroll (run_cleanup a) = firstScroll a"
  "autoScroll (run_cleanup a) = autoScroll a"
  "lastAutoScrolledMessageId (run_cleanup a) = lastAutoScrolledMessageId a"
  "isSendingMessage (run_cleanup a) = isSendingMessage a"
  "interval (run_cleanup a) = interval a"
  "sends (run_cleanup a) = sends a"
  "requests (run_cleanup a) = requests a"
  "posts (run_cleanup a) = posts a"
  "scrolls (run_cleanup a) = scrolls a"
  "console (run_cleanup a) = console a"
  "replaced (run_cleanup a) = replaced a"
  by (simp_all add: run_cleanup_def Let_def split: option.split)

lemma fetch_effect_same [simp]:
  "chatId (fetch_effect snap a) = chatId a"
  "scrollEl (fetch_effect snap a) = scrollEl a"
  "pos (fetch_effect snap a) = pos a"
  "reloadCounter (fetch_effect snap a) = reloadCounter a"
  "messages (fetch_effect snap a) = messages a"
  "composingMessage (fetch_effect snap a) = composingMessage a"
  "firstScroll (fetch_effect snap a) = firstScroll a"
  "autoScroll (fetch_effect snap a) = autoScroll a"
  "lastAutoScrolledMessageId (fetch_effect snap a) = lastAutoScrolledMessageId a"
  "isSendingMessage (fetch_effect snap a) = isSendingMessage a"
  "interval (fetch_effect snap a) = interval a"
  "sends (fetch_effect snap a) = sends a"
  "posts (fetch_effect snap a) = posts a"
  "scrolls (fetch_effect snap a) = scrolls a"
  "console (fetch_effect snap a) = console a"
  "replaced (fetch_effect snap a) = replaced a"
  by (simp_all add: fetch_effect_def run_cleanup_def Let_def split: option.split)

lemma interval_effect_same [simp]:
  "chatId (interval_effect snap a) = chatId a"
  "scrollEl (interval_effect snap a) = scrollEl a"
  "pos (interval_effect snap a) = pos a"
  "isLoading (interval_effect snap a) = isLoading a"
  "error (interval_effect snap a) = error a"
  "reloadCounter (interval_effect snap a) = reloadCounter a"
  "messages (interval_effect snap a) = messages a"
  "composingMessage (interval_effect snap a) = composingMessage a"
  "firstScroll (interval_effect snap a) = firstScroll a"
  "autoScroll (interval_effect snap a) = autoScroll a"
  "lastAutoScrolledMessageId (interval_effect snap a) = lastAutoScrolledMessageId a"
  "isSendingMessage (interval_effect snap a) = isSendingMessage a"
  "fetches (interval_effect snap a) = fetches a"
  "cleanup (interval_effect snap a) = cleanup a"
  "sends (interval_effect snap a) = sends a"
  "requests (interval_effect snap a) = requests a"
  "posts (interval_effect snap a) = posts a"
  "scrolls (interval_effect snap a) = scrolls a"
  "console (interval_effect snap a) = console a"
  "replaced (interval_effect snap a) = replaced a"
  by (simp_all add: interval_effect_def Let_def split: option.split)

lemma unauthorized_effect_same [simp]:
  "chatId (unauthorized_effect snap a) = chatId a"
  "scrollEl (unauthorized_effect snap a) = scrollEl a"
  "pos (unauthorized_effect snap a) = pos a"
  "isLoading (unauthorized_effect snap a) = isLoading a"
  "error (unauthorized_effect snap a) = error a"
  "reloadCounter (unauthorized_effect snap a) = reloadCounter a"
  "messages (unauthorized_effect snap a) = messages a"
  "composingMessage (unauthorized_effect snap a) = composingMessage a"
  "firstScroll (unauthorized_effect snap a) = firstScroll a"
  "autoScroll (unauthorized_effect snap a) = autoScroll a"
  "lastAutoScrolledMessageId (unauthorized_effect snap a) = lastAutoScrolledMessageId a"
  "isSendingMessage (unauthorized_effect snap a) = isSendingMessage a"
  "fetches (unauthorized_effect snap a) = fetches a"
  "cleanup (unauthorized_effect snap a) = cleanup a"
  "interval (unauthorized_effect snap a) = interval a"
  "sends (unauthorized_effect snap a) = sends a"
  "requests (unauthorized_effect snap a) = requests a"
  "posts (unauthorized_effect snap a) = posts a"
  "scrolls (unauthorized_effect snap a) = scrolls a"
  "console (unauthorized_effect snap a) = console a"
  by (simp_all add: unauthorized_effect_def Let_def split: option.split)

lemma first_scroll_effect_same [simp]:
  "chatId (first_scroll_effect snap a) = chatId a"
  "scrollEl (first_scroll_effect snap a) = scrollEl a"
  "pos (first_scroll_effect snap a) = pos a"
  "isLoading (first_scroll_effect snap a) = isLoading a"
  "error (first_scroll_effect snap a) = error a"
  "reloadCounter (first_scroll_effect snap a) = reloadCounter a"
  "messages (first_scroll_effect snap a) = messages a"
  "composingMessage (first_scroll_effect snap a) = composingMessage a"
  "autoScroll (first_scroll_effect snap a) = autoScroll a"
  "lastAutoScrolledMessageId (first_scroll_effect snap a) = lastAutoScrolledMessageId a"
  "isSendingMessage (first_scroll_effect snap a) = isSendingMessage a"
  "fetches (first_scroll_effect snap a) = fetches a"
  "cleanup (first_scroll_effect snap a) = cleanup a"
  "interval (first_scroll_effect snap a) = interval a"
  "sends (first_scroll_effect snap a) = sends a"
  "requests (first_scroll_effect snap a) = requests a"
  "posts (first_scroll_effect snap a) = posts a"
  "console (first_scroll_effect snap a) = console a"
  "replaced (first_scroll_effect snap a) = replaced a"
  by (simp_all add: first_scroll_effect_def Let_def split: option.split)

lemma position_effect_same [simp]:
  "chatId (position_effect snap a) = chatId a"
  "scrollEl (position_effect snap a) = scrollEl a"
  "pos (position_effect snap a) = pos a"
  "isLoading (position_effect snap a) = isLoading a"
  "error (position_effect snap a) = error a"
  "reloadCounter (position_effect snap a) = reloadCounter a"
  "messages (position_effect snap a) = messages a"
  "composingMessage (position_effect snap a) = composingMessage a"
  "firstScroll (position_effect snap a) = firstScroll a"
  "lastAutoScrolledMessageId (position_effect snap a) = lastAutoScrolledMessageId a"
  "isSendingMessage (position_effect snap a) = isSendingMessage a"
  "fetches (position_effect snap a) = fetches a"
  "cleanup (position_effect snap a) = cleanup a"
  "interval (position_effect snap a) = interval a"
  "sends (position_effect snap a) = sends a"
  "requests (position_effect snap a) = requests a"
  "posts (position_effect snap a) = posts a"
  "scrolls (position_effect snap a) = scrolls a"
  "console (position_effect snap a) = console a"
  "replaced (position_effect snap a) = replaced a"
  by (simp_all add: position_effect_def Let_def split: option.split)

lemma auto_scroll_effect_same [simp]:
  "chatId (auto_scroll_effect snap a) = chatId a"
  "scrollEl (auto_scroll_effect snap a) = scrollEl a"
  "pos (auto_scroll_effect snap a) = pos a"
  "isLoading (auto_scroll_effect snap a) = isLoading a"
  "error (auto_scroll_effect snap a) = error a"
  "reloadCounter (auto_scroll_effect snap a) = reloadCounter a"
  "messages (auto_scroll_effect snap a) = messages a"
  "composingMessage (auto_scroll_effect snap a) = composingMessage a"
  "firstScroll (auto_scroll_effect snap a) = firstScroll a"
  "autoScroll (auto_scroll_effect snap a) = autoScroll a"
  "isSendingMessage (auto_scroll_effect snap a) = isSendingMessage a"
  "fetches (auto_scroll_effect snap a) = fetches a"
  "cleanup (auto_scroll_effect snap a) = cleanup a"
  "interval (auto_scroll_effect snap a) = interval a"
  "sends (auto_scroll_effect snap a) = sends a"
  "requests (auto_scroll_effect snap a) = requests a"
  "posts (auto_scroll_effect snap a) = posts a"
  "console (auto_scroll_effect snap a) = console a"
  "replaced (auto_scroll_effect snap a) = replaced a"
  by (simp_all add: auto_scroll_effect_def Let_def split: option.split)

lemmas select_if =
  if_distrib [of chatId]
  if_distrib [of scrollEl]
  if_distrib [of pos]
  if_distrib [of isLoading]
  if_distrib [of error]
  if_distrib [of reloadCounter]
  if_distrib [of messages]
  if_distrib [of composingMessage]
  if_distrib [of firstScroll]
  if_distrib [of autoScroll]
  if_distrib [of lastAutoScrolledMessageId]
  if_distrib [of isSendingMessage]
  if_distrib [of fetches]
  if_distrib [of cleanup]
  if_distrib [of interval]
  if_distrib [of sends]
  if_distrib [of requests]
  if_distrib [of posts]
  if_distrib [of scrolls]
  if_distrib [of console]
  if_distrib [of replaced]

lemma commit_same [simp]:
  "chatId (commit d s) = chatId s" "scrollEl (commit d s) = scrollEl s" "pos (commit d s) = pos s"
  "reloadCounter (commit d s) = reloadCounter s" "messages (commit d s) = messages s"
  "composingMessage (commit d s) = composingMessage s"
  "isSendingMessage (commit d s) = isSendingMessage s" "sends (commit d s) = sends s"
  "posts (commit d s) = posts s" "console (commit d s) = console s"
  by (simp_all add: commit_def Let_def select_if)

lemma changed_simps [simp]:
  "changed p c FetchEffect = (chatId p \<noteq> chatId c \<or> reloadCounter p \<noteq> reloadCounter c)"
  "changed p c IntervalEffect = (isLoading p \<noteq> isLoading c)"
  "changed p c UnauthorizedEffect = (error p \<noteq> error c)"
  "changed p c FirstScrollEffect =
     (firstScroll p \<noteq> firstScroll c \<or> messages p \<noteq> messages c \<or> isLoading p \<noteq> isLoading c)"
  "changed p c PositionEffect = (pos p \<noteq> pos c)"
  "changed p c AutoScrollEffect =
     (lastMessageId p \<noteq> lastMessageId c \<or> autoScroll p \<noteq> autoScroll c
      \<or> lastAutoScrolledMessageId p \<noteq> lastAutoScrolledMessageId c)"
  by (simp_all add: changed_def)

lemma fetch_effect_fields:
  "isLoading (fetch_effect snap a) = (truthy (chatId snap) \<or> isLoading a)"
  "error (fetch_effect snap a) = (if truthy (chatId snap) then None else error a)"
  "requests (fetch_effect snap a) = requests a
     @ (if truthy (chatId snap) then [(the (chatId snap), sinceId_of (messages snap))] else [])"
  "fetches (fetch_effect snap a) = cancel (cleanup a) (fetches a)
     @ (if truthy (chatId snap) then [new_closure snap] else [])"
  "cleanup (fetch_effect snap a) = (if truthy (chatId snap) then Some (length (fetches a)) else None)"
  by (simp_all add: fetch_effect_def run_cleanup_def cancel_def new_closure_def Let_def
      split: option.split)

lemma commit_hook:
  "isLoading (commit d s) = (d FetchEffect \<and> truthy (chatId s) \<or> isLoading s)"
  "error (commit d s) = (if d FetchEffect \<and> truthy (chatId s) then None else error s)"
  "requests (commit d s) = requests s
     @ (if d FetchEffect \<and> truthy (chatId s) then [(the (chatId s), sinceId_of (messages s))] else [])"
  "fetches (commit d s) =
     (if d FetchEffect then cancel (cleanup s) (fetches s)
        @ (if truthy (chatId s) then [new_closure s] else []) else fetches s)"
  "cleanup (commit d s) =
     (if d FetchEffect then (if truthy (chatId s) then Some (length (fetches s)) else None)
      else cleanup s)"
  "interval (commit d s) = (if d IntervalEffect then \<not> isLoading s else interval s)"
  by (simp_all add: commit_def Let_def select_if fetch_effect_fields interval_effect_def)

lemma first_scroll_effect_alt:
  "first_scroll_effect snap a =
     (if first_fires snap then a\<lparr>firstScroll := False, scrolls := scrolls a @ [(FirstLoad, bottom snap)]\<rparr> else a)"
  by (simp add: first_scroll_effect_def first_fires_def bottom_def split: option.split)

lemma auto_scroll_effect_alt:
  "auto_scroll_effect snap a =
     (if auto_fires snap then
        a\<lparr>lastAutoScrolledMessageId := lastMessageId snap,
          scrolls := scrolls a @ [(NewMessage (lastMessageId snap), bottom snap)]\<rparr>
      else a)"
  by (simp add: auto_scroll_effect_def auto_fires_def bottom_def split: option.split)

lemma scroll_effect_fields:
  "firstScroll (first_scroll_effect snap a) = (firstScroll a \<and> \<not> first_fires snap)"
  "scrolls (first_scroll_effect snap a) =
     scrolls a @ (if first_fires snap then [(FirstLoad, bottom snap)] else [])"
  "autoScroll (position_effect snap a) =
     (if scrollEl snap \<noteq> None
      then maxScrollTop (the (scrollEl snap)) - scrollTop (the (scrollEl snap)) < 64
      else autoScroll a)"
  "lastAutoScrolledMessageId (auto_scroll_effect snap a) =
     (if auto_fires snap then lastMessageId snap else lastAutoScrolledMessageId a)"
  "scrolls (auto_scroll_effect snap a) =
     scrolls a @ (if auto_fires snap then [(NewMessage (lastMessageId snap), bottom snap)] else [])"
  by (simp_all add: first_scroll_effect_alt auto_scroll_effect_alt position_effect_def
      split: option.split)

lemma commit_page:
  "firstScroll (commit d s) = (firstScroll s \<and> \<not> (d FirstScrollEffect \<and> first_fires s))"
  "autoScroll (commit d s) =
     (if d PositionEffect \<and> scrollEl s \<noteq> None
      then maxScrollTop (the (scrollEl s)) - scrollTop (the (scrollEl s)) < 64 else autoScroll s)"
  "lastAutoScrolledMessageId (commit d s) =
     (if d AutoScrollEffect \<and> auto_fires s then lastMessageId s else lastAutoScrolledMessageId s)"
  "scrolls (commit d s) = scrolls s
      @ (if d FirstScrollEffect \<and> first_fires s then [(FirstLoad, bottom s)] else [])
      @ (if d AutoScrollEffect \<and> auto_fires s then [(NewMessage (lastMessageId s), bottom s)] else [])"
  by (simp_all add: commit_def Let_def select_if scroll_effect_fields)

lemma commit_lastMessageId [simp]: "lastMessageId (commit d s) = lastMessageId s"
  by (simp add: lastMessageId_def)

lemma settle_same [simp]:
  "chatId (settle p c) = chatId c" "scrollEl (settle p c) = scrollEl c" "pos (settle p c) = pos c"
  "reloadCounter (settle p c) = reloadCounter c" "messages (settle p c) = messages c"
  "composingMessage (settle p c) = composingMessage c"
  "isSendingMessage (settle p c) = isSendingMessage c" "sends (settle p c) = sends c"
  "posts (settle p c) = posts c" "console (settle p c) = console c"
  by (simp_all add: settle_def rerender_def Let_def)

lemma settle_hook:
  "isLoading (settle p c) = (changed p c FetchEffect \<and> truthy (chatId c) \<or> isLoading c)"
  "error (settle p c) = (if changed p c FetchEffect \<and> truthy (chatId c) then None else error c)"
  "requests (settle p c) = requests c
     @ (if changed p c FetchEffect \<and> truthy (chatId c)
        then [(the (chatId c), sinceId_of (messages c))] else [])"
  "fetches (settle p c) =
     (if changed p c FetchEffect then cancel (cleanup c) (fetches c)
        @ (if truthy (chatId c) then [new_closure c] else []) else fetches c)"
  "cleanup (settle p c) =
     (if changed p c FetchEffect then (if truthy (chatId c) then Some (length (fetches c)) else None)
      else cleanup c)"
  by (simp_all add: settle_def rerender_def Let_def commit_hook)

lemma settle_interval:
  "interval c = (\<not> isLoading p) \<Longrightarrow> interval (settle p c) = (\<not> isLoading (settle p c))"
  by (auto simp add: settle_def rerender_def Let_def commit_hook)

lemma settle_firstScroll:
  "firstScroll (settle p c) = (firstScroll c \<and> \<not> (changed p c FirstScrollEffect \<and> first_fires c))"
  by (auto simp add: settle_def rerender_def Let_def commit_page commit_hook first_fires_def)

lemma settle_autoScroll: "autoScroll (settle p c) = settled_autoScroll p c"
  by (simp add: settle_def rerender_def Let_def commit_page settled_autoScroll_def near_def)

lemma round1_auto:
  "auto_fires (commit (changed p c) c) =
     (settled_autoScroll p c \<and> scrollEl c \<noteq> None
      \<and> lastMessageId c \<noteq> lastAutoScrolledMessageId c
      \<and> \<not> (changed p c AutoScrollEffect \<and> auto_fires c))"
  by (auto simp add: auto_fires_def commit_page settled_autoScroll_def near_def)

lemma round1_first:
  "changed c (commit (changed p c) c) FirstScrollEffect \<Longrightarrow> \<not> first_fires (commit (changed p c) c)"
  by (auto simp add: first_fires_def commit_page commit_hook)

lemma settle_lastAuto:
  "lastAutoScrolledMessageId (settle p c) =
     (if settle_fires p c then lastMessageId c else lastAutoScrolledMessageId c)"
proof -
  define r1 where "r1 = commit (changed p c) c"
  define r2 where "r2 = commit (changed c r1) r1"
  have a1: "lastAutoScrolledMessageId r1 =
      (if changed p c AutoScrollEffect \<and> auto_fires c then lastMessageId c
       else lastAutoScrolledMessageId c)"
    by (simp add: r1_def commit_page)
  have a2: "lastAutoScrolledMessageId r2 =
      (if changed c r1 AutoScrollEffect \<and> auto_fires r1 then lastMessageId c
       else lastAutoScrolledMessageId r1)"
    by (simp add: r2_def commit_page) (simp add: r1_def)
  have f2: "\<not> (changed r1 r2 AutoScrollEffect \<and> auto_fires r2)"
    by (auto simp add: r2_def r1_def commit_page auto_fires_def)
  have a3: "lastAutoScrolledMessageId (settle p c) = lastAutoScrolledMessageId r2"
  proof -
    have "settle p c = commit (changed r1 r2) r2"
      by (simp add: settle_def rerender_def Let_def r1_def r2_def)
    then show ?thesis using f2 by (auto simp add: commit_page)
  qed
  have au: "autoScroll r1 = settled_autoScroll p c"
    by (simp add: r1_def commit_page settled_autoScroll_def near_def)
  show ?thesis
    unfolding a3 a2 a1
    by (auto simp add: settle_fires_def auto_fires_def r1_def commit_page settled_autoScroll_def
        near_def)
qed

lemma changed_refl [simp]: "changed s s e = False"
  by (cases e) simp_all

lemma commit_idle: "(\<And>e. \<not> d e) \<Longrightarrow> commit d s = s"
  by (simp add: commit_def)

lemma commit_auto_only:
  assumes "\<not> d FetchEffect" "\<not> d IntervalEffect" "\<not> d UnauthorizedEffect"
    "\<not> d FirstScrollEffect" "\<not> d PositionEffect" "\<not> (d AutoScrollEffect \<and> auto_fires s)"
  shows "commit d s = s"
  using assms by (auto simp add: commit_def auto_scroll_effect_alt)

lemma third_render:
  "rerender (rerender p c) (rerender c (rerender p c)) = rerender c (rerender p c)"
proof -
  define r1 where "r1 = commit (changed p c) c"
  define r2 where "r2 = commit (changed c r1) r1"
  have a: "\<not> changed r1 r2 FetchEffect" and e: "\<not> changed r1 r2 PositionEffect"
    by (simp_all add: r2_def)
  have b: "\<not> changed r1 r2 IntervalEffect" and u: "\<not> changed r1 r2 UnauthorizedEffect"
    by (simp_all add: r2_def commit_hook) (simp_all add: r1_def)
  have d: "\<not> changed r1 r2 FirstScrollEffect"
    by (simp add: r2_def commit_hook commit_page) (auto simp add: r1_def first_fires_def commit_hook commit_page)
  have f: "\<not> (changed r1 r2 AutoScrollEffect \<and> auto_fires r2)"
    by (auto simp add: r2_def r1_def commit_page auto_fires_def)
  have "commit (changed r1 r2) r2 = r2"
    by (rule commit_auto_only [OF a b u d e f])
  then show ?thesis by (simp add: rerender_def r1_def r2_def)
qed

lemma settle_alt: "settle p c = rerender c (rerender p c)"
  by (simp add: settle_def Let_def third_render)

text \<open>After \<open>settle\<close> a further render runs no effect and changes nothing.\<close>

lemma settle_quiescent:
  "changed (rerender c (rerender p c)) (settle p c) e = False"
  "rerender (rerender c (rerender p c)) (settle p c) = settle p c"
  by (simp_all add: settle_alt rerender_def commit_idle)

lemma settle_scrolls:
  "scrolls (settle p c) = scrolls c
     @ (if changed p c FirstScrollEffect \<and> first_fires c then [(FirstLoad, bottom c)] else [])
     @ (if settle_fires p c then [(NewMessage (lastMessageId c), bottom c)] else [])"
proof -
  define r1 where "r1 = commit (changed p c) c"
  have b: "bottom r1 = bottom c"
    by (simp add: bottom_def r1_def)
  have f: "\<not> (changed c r1 FirstScrollEffect \<and> first_fires r1)"
    using round1_first [of c p] by (auto simp add: r1_def)
  have s1: "scrolls r1 = scrolls c
     @ (if changed p c FirstScrollEffect \<and> first_fires c then [(FirstLoad, bottom c)] else [])
     @ (if changed p c AutoScrollEffect \<and> auto_fires c then [(NewMessage (lastMessageId c), bottom c)] else [])"
    by (simp add: r1_def commit_page)
  have s2: "scrolls (settle p c) = scrolls r1
     @ (if changed c r1 AutoScrollEffect \<and> auto_fires r1 then [(NewMessage (lastMessageId c), bottom c)] else [])"
  proof -
    have "settle p c = commit (changed c r1) r1"
      by (simp add: settle_alt rerender_def r1_def)
    moreover have "lastMessageId r1 = lastMessageId c"
      by (simp add: r1_def)
    ultimately show ?thesis
      using f b by (auto simp add: commit_page)
  qed
  have a: "(changed p c AutoScrollEffect \<and> auto_fires c \<or> changed c r1 AutoScrollEffect \<and> auto_fires r1)
      = settle_fires p c"
    "\<not> (changed p c AutoScrollEffect \<and> auto_fires c \<and> changed c r1 AutoScrollEffect \<and> auto_fires r1)"
    by (auto simp add: settle_fires_def auto_fires_def r1_def commit_page settled_autoScroll_def near_def)
  show ?thesis
    unfolding s2 s1 using a by auto
qed

lemma step_same:
  "chatId (step e s) = chatId (handle e s)" "scrollEl (step e s) = scrollEl (handle e s)"
  "pos (step e s) = pos (handle e s)" "reloadCounter (step e s) = reloadCounter (handle e s)"
  "messages (step e s) = messages (handle e s)"
  "composingMessage (step e s) = composingMessage (handle e s)"
  "isSendingMessage (step e s) = isSendingMessage (handle e s)"
  "sends (step e s) = sends (handle e s)" "posts (step e s) = posts (handle e s)"
  "console (step e s) = console (handle e s)"
  by (simp_all add: step_def)

lemma mount_fields:
  "chatId (mount c el) = c" "scrollEl (mount c el) = el" "messages (mount c el) = None"
  "isLoading (mount c el)" "error (mount c el) = None" "reloadCounter (mount c el) = 0"
  "interval (mount c el) = False"
  "fetches (mount c el) = (if truthy c then [new_closure (initial c el)] else [])"
  "cleanup (mount c el) = (if truthy c then Some 0 else None)"
  "requests (mount c el) = (if truthy c then [(the c, 0)] else [])"
  by (simp_all add: mount_def rerender_def Let_def commit_hook cancel_def sinceId_of_def)
     (simp_all add: initial_def sinceId_of_def)

lemma new_closure_fields [simp]:
  "g_chatId (new_closure s) = the (chatId s)" "g_messages (new_closure s) = messages s"
  "g_sinceId (new_closure s) = sinceId_of (messages s)" "g_canceled (new_closure s) = False"
  "g_pending (new_closure s) = True"
  by (simp_all add: new_closure_def)

lemma wf_mount: "wf (mount c el)"
  by (auto simp add: wf_def live_def mount_fields initial_def truthy_def split: option.splits)

lemma go_resume_same [simp]:
  "chatId (go_resume i r s) = chatId s" "scrollEl (go_resume i r s) = scrollEl s"
  "pos (go_resume i r s) = pos s" "reloadCounter (go_resume i r s) = reloadCounter s"
  "composingMessage (go_resume i r s) = composingMessage s"
  "firstScroll (go_resume i r s) = firstScroll s" "autoScroll (go_resume i r s) = autoScroll s"
  "lastAutoScrolledMessageId (go_resume i r s) = lastAutoScrolledMessageId s"
  "isSendingMessage (go_resume i r s) = isSendingMessage s"
  "cleanup (go_resume i r s) = cleanup s" "interval (go_resume i r s) = interval s"
  "sends (go_resume i r s) = sends s" "requests (go_resume i r s) = requests s"
  "posts (go_resume i r s) = posts s" "scrolls (go_resume i r s) = scrolls s"
  "replaced (go_resume i r s) = replaced s"
  by (simp_all add: go_resume_def Let_def split: response.split)

lemma go_resume_fields:
  "fetches (go_resume i r s) = (fetches s)[i := (fetches s ! i)\<lparr>g_pending := False\<rparr>]"
  "messages (go_resume i r s) =
     (case r of
        Resolved m \<Rightarrow>
          if \<not> g_canceled (fetches s ! i) \<and> (g_messages (fetches s ! i) = None \<or> m \<noteq> [])
          then Some (case messages s of None \<Rightarrow> m | Some oldM \<Rightarrow> oldM @ m) else messages s
      | Rejected e \<Rightarrow> messages s)"
  "isLoading (go_resume i r s) =
     (case r of Resolved m \<Rightarrow> g_canceled (fetches s ! i) \<and> isLoading s | Rejected e \<Rightarrow> False)"
  "error (go_resume i r s) = (case r of Resolved m \<Rightarrow> error s | Rejected e \<Rightarrow> Some e)"
  "console (go_resume i r s) = (case r of Resolved m \<Rightarrow> console s | Rejected e \<Rightarrow> console s @ [e])"
  by (simp_all add: go_resume_def Let_def split: response.split)

lemma handle_kinds:
  "(fetches (handle e s) = fetches s \<and> cleanup (handle e s) = cleanup s
    \<and> messages (handle e s) = messages s \<and> isLoading (handle e s) = isLoading s
    \<and> error (handle e s) = error s \<and> requests (handle e s) = requests s)
   \<or> (\<exists>i r. e = FetchSettled i r \<and> i < length (fetches s) \<and> g_pending (fetches s ! i)
        \<and> handle e s = go_resume i r s)"
  by (cases e)
     (simp_all add: handle_def send_def send_resume_def handleKeyDown_def Let_def split: option.split)

lemma handle_interval [simp]: "interval (handle e s) = interval s"
  by (cases e)
     (simp_all add: handle_def send_def send_resume_def handleKeyDown_def Let_def split: option.split)

lemma step_interval: "interval s = (\<not> isLoading s) \<Longrightarrow> interval (step e s) = (\<not> isLoading (step e s))"
proof -
  assume a: "interval s = (\<not> isLoading s)"
  have "interval (handle e s) = (\<not> isLoading s)" using a by simp
  then show ?thesis unfolding step_def by (rule settle_interval)
qed

lemma step_hook:
  "isLoading (step e s) =
     (changed s (handle e s) FetchEffect \<and> truthy (chatId (handle e s)) \<or> isLoading (handle e s))"
  "error (step e s) =
     (if changed s (handle e s) FetchEffect \<and> truthy (chatId (handle e s)) then None
      else error (handle e s))"
  "requests (step e s) = requests (handle e s)
     @ (if changed s (handle e s) FetchEffect \<and> truthy (chatId (handle e s))
        then [(the (chatId (handle e s)), sinceId_of (messages (handle e s)))] else [])"
  "fetches (step e s) =
     (if changed s (handle e s) FetchEffect
      then cancel (cleanup (handle e s)) (fetches (handle e s))
           @ (if truthy (chatId (handle e s)) then [new_closure (handle e s)] else [])
      else fetches (handle e s))"
  "cleanup (step e s) =
     (if changed s (handle e s) FetchEffect
      then (if truthy (chatId (handle e s)) then Some (length (fetches (handle e s))) else None)
      else cleanup (handle e s))"
  unfolding step_def by (rule settle_hook)+

lemma live_cancel:
  assumes i: "i < length fs" and p: "g_pending (cancel k fs ! i)"
    and c: "\<not> g_canceled (cancel k fs ! i)"
  shows "k \<noteq> Some i \<and> g_pending (fs ! i) \<and> \<not> g_canceled (fs ! i)"
proof (cases k)
  case None
  then show ?thesis using p c by (simp add: cancel_def)
next
  case (Some a)
  show ?thesis
  proof (cases "a < length fs")
    case True
    then show ?thesis
      using Some i p c by (cases "a = i") (simp_all add: cancel_def)
  next
    case False
    then have "cancel k fs = fs" using Some by (simp add: cancel_def list_update_beyond)
    then show ?thesis using Some False i p c by auto
  qed
qed

lemma length_cancel [simp]: "length (cancel k fs) = length fs"
  by (cases k) (simp_all add: cancel_def)

lemma wfI:
  assumes "\<And>i. live s i \<Longrightarrow> cleanup s = Some i" "\<And>i. live s i \<Longrightarrow> g_messages (fetches s ! i) = messages s"
    "\<And>i. live s i \<Longrightarrow> g_sinceId (fetches s ! i) = sinceId_of (messages s)"
    "\<And>i. live s i \<Longrightarrow> chatId s = Some (g_chatId (fetches s ! i))"
    "\<And>i. live s i \<Longrightarrow> truthy (chatId s)"
    "\<And>i. cleanup s = Some i \<Longrightarrow> i < length (fetches s)"
    "interval s = (\<not> isLoading s)"
  shows "wf s"
  unfolding wf_def using assms by blast

lemma wfD:
  assumes "wf s" "live s i"
  shows "cleanup s = Some i" "g_messages (fetches s ! i) = messages s"
    "g_sinceId (fetches s ! i) = sinceId_of (messages s)"
    "chatId s = Some (g_chatId (fetches s ! i))" "truthy (chatId s)"
  using assms unfolding wf_def by blast+

lemma wf_cleanup: "wf s \<Longrightarrow> cleanup s = Some i \<Longrightarrow> i < length (fetches s)"
  unfolding wf_def by blast

lemma wf_interval: "wf s \<Longrightarrow> interval s = (\<not> isLoading s)"
  unfolding wf_def by blast

text \<open>A step that runs the fetch effect: every older closure is canceled or settled.\<close>

lemma live_after_fetch:
  assumes w: "wf s" and f: "fetches (handle e s) = fetches s" and c: "cleanup (handle e s) = cleanup s"
    and d: "changed s (handle e s) FetchEffect" and l: "live (step e s) i"
  shows "i = length (fetches s) \<and> truthy (chatId (handle e s))
    \<and> fetches (step e s) ! i = new_closure (handle e s)"
proof -
  have fs: "fetches (step e s) = cancel (cleanup s) (fetches s)
      @ (if truthy (chatId (handle e s)) then [new_closure (handle e s)] else [])"
    using d by (simp add: step_hook f c del: changed_simps)
  have "\<not> i < length (fetches s)"
  proof
    assume lt: "i < length (fetches s)"
    then have "fetches (step e s) ! i = cancel (cleanup s) (fetches s) ! i"
      by (simp add: fs nth_append)
    then have "g_pending (cancel (cleanup s) (fetches s) ! i)"
      "\<not> g_canceled (cancel (cleanup s) (fetches s) ! i)"
      using l by (simp_all add: live_def)
    from live_cancel [OF lt this] have "cleanup s \<noteq> Some i" "live s i"
      using lt by (simp_all add: live_def)
    then show False using wfD(1) [OF w] by blast
  qed
  moreover have "i < length (fetches (step e s))"
    using l by (simp add: live_def)
  ultimately have "i = length (fetches s) \<and> truthy (chatId (handle e s))"
    by (simp add: fs split: if_splits)
  then show ?thesis by (simp add: fs nth_append)
qed

lemma wf_step_quiet:
  assumes w: "wf s" and f: "fetches (handle e s) = fetches s" and c: "cleanup (handle e s) = cleanup s"
    and m: "messages (handle e s) = messages s"
  shows "wf (step e s)"
proof (cases "changed s (handle e s) FetchEffect")
  case True
  note la = live_after_fetch [OF w f c True]
  have cl: "cleanup (step e s) =
      (if truthy (chatId (handle e s)) then Some (length (fetches s)) else None)"
    using True by (simp add: step_hook f del: changed_simps)
  have fs: "length (fetches (step e s)) =
      length (fetches s) + (if truthy (chatId (handle e s)) then 1 else 0)"
    using True by (simp add: step_hook f c del: changed_simps)
  show ?thesis
  proof (rule wfI)
    fix i assume l: "live (step e s) i"
    from la [OF l] have i: "i = length (fetches s)" and t: "truthy (chatId (handle e s))"
      and n: "fetches (step e s) ! i = new_closure (handle e s)" by blast+
    show "cleanup (step e s) = Some i" by (simp add: cl t i)
    show "g_messages (fetches (step e s) ! i) = messages (step e s)" by (simp add: n step_same)
    show "g_sinceId (fetches (step e s) ! i) = sinceId_of (messages (step e s))"
      by (simp add: n step_same)
    show "truthy (chatId (step e s))" using t by (simp add: step_same)
    show "chatId (step e s) = Some (g_chatId (fetches (step e s) ! i))"
      using t by (simp add: n step_same truthy_def split: option.splits)
  next
    fix i assume "cleanup (step e s) = Some i"
    then show "i < length (fetches (step e s))"
      by (simp add: cl fs split: if_splits)
  next
    show "interval (step e s) = (\<not> isLoading (step e s))"
      by (rule step_interval [OF wf_interval [OF w]])
  qed
next
  case False
  have same: "fetches (step e s) = fetches s" "cleanup (step e s) = cleanup s"
    "messages (step e s) = messages s"
    using False by (simp_all add: step_hook step_same f c m del: changed_simps)
  have ch: "chatId (step e s) = chatId s"
    using False by (simp add: step_same)
  have lv: "live (step e s) i = live s i" for i
    by (simp add: live_def same)
  show ?thesis
  proof (rule wfI)
    show "interval (step e s) = (\<not> isLoading (step e s))"
      by (rule step_interval [OF wf_interval [OF w]])
  next
    fix i assume "cleanup (step e s) = Some i"
    then show "i < length (fetches (step e s))"
      using wf_cleanup [OF w, of i] by (simp only: same)
  next
    fix i assume "live (step e s) i"
    then have l: "live s i" by (simp only: lv)
    show "cleanup (step e s) = Some i" using wfD(1) [OF w l] by (simp only: same)
    show "g_messages (fetches (step e s) ! i) = messages (step e s)"
      using wfD(2) [OF w l] by (simp only: same)
    show "g_sinceId (fetches (step e s) ! i) = sinceId_of (messages (step e s))"
      using wfD(3) [OF w l] by (simp only: same)
    show "chatId (step e s) = Some (g_chatId (fetches (step e s) ! i))"
      using wfD(4) [OF w l] by (simp only: same ch)
    show "truthy (chatId (step e s))" using wfD(5) [OF w l] by (simp only: ch)
  qed
qed

lemma wf_step_settling:
  assumes w: "wf s" and i: "i < length (fetches s)" and p: "g_pending (fetches s ! i)"
    and h: "handle e s = go_resume i r s"
  shows "wf (step e s)"
proof -
  have nd: "\<not> changed s (handle e s) FetchEffect"
    by (simp add: h)
  have f: "fetches (step e s) = (fetches s)[i := (fetches s ! i)\<lparr>g_pending := False\<rparr>]"
    and c: "cleanup (step e s) = cleanup s" and ch: "chatId (step e s) = chatId s"
    using nd by (simp_all add: step_hook step_same h go_resume_fields del: changed_simps)
  have m: "messages (step e s) = messages (go_resume i r s)"
    by (simp add: h step_same)
  have old: "j \<noteq> i \<and> live s j \<and> fetches (step e s) ! j = fetches s ! j" if "live (step e s) j" for j
  proof -
    have "j \<noteq> i" using that i by (auto simp add: live_def f)
    then show ?thesis using that by (simp add: live_def f)
  qed
  have keep: "messages (step e s) = messages s" if "live s j" "j \<noteq> i" for j
  proof -
    have "cleanup s = Some j" using that(1) w by (rule wfD(1) [rotated])
    then have "\<not> live s i" using that(2) wfD(1) [OF w, of i] by auto
    then have "g_canceled (fetches s ! i)"
      using i p by (simp add: live_def)
    then show ?thesis
      by (simp add: m go_resume_fields split: response.split)
  qed
  show ?thesis
  proof (rule wfI)
    fix j assume l: "live (step e s) j"
    from old [OF l] have ji: "j \<noteq> i" and lj: "live s j"
      and fj: "fetches (step e s) ! j = fetches s ! j" by blast+
    note k = keep [OF lj ji]
    show "cleanup (step e s) = Some j" using wfD(1) [OF w lj] by (simp only: c)
    show "g_messages (fetches (step e s) ! j) = messages (step e s)"
      using wfD(2) [OF w lj] by (simp only: fj k)
    show "g_sinceId (fetches (step e s) ! j) = sinceId_of (messages (step e s))"
      using wfD(3) [OF w lj] by (simp only: fj k)
    show "chatId (step e s) = Some (g_chatId (fetches (step e s) ! j))"
      using wfD(4) [OF w lj] by (simp only: fj ch)
    show "truthy (chatId (step e s))" using wfD(5) [OF w lj] by (simp only: ch)
  next
    fix j assume "cleanup (step e s) = Some j"
    then show "j < length (fetches (step e s))"
      using wf_cleanup [OF w, of j] by (simp add: f c)
  next
    show "interval (step e s) = (\<not> isLoading (step e s))"
      by (rule step_interval [OF wf_interval [OF w]])
  qed
qed

lemma wf_step: "wf s \<Longrightarrow> wf (step e s)"
  using handle_kinds [of e s] wf_step_quiet [of s e] wf_step_settling [of s _ e] by blast

lemma run_Cons [simp]: "run (e # es) s = run es (step e s)" and run_Nil [simp]: "run [] s = s"
  by (simp_all add: run_def)

lemma run_snoc: "run (es @ [e]) s = step e (run es s)"
  by (simp add: run_def)

lemma wf_run: "wf s \<Longrightarrow> wf (run es s)"
  by (induction es arbitrary: s) (simp_all add: wf_step)

lemma handle_requests [simp]: "requests (handle e s) = requests s"
  using handle_kinds [of e s] by auto

lemma ascending_last: "ascending l \<Longrightarrow> x \<in> set l \<Longrightarrow> msg_id x \<le> msg_id (last l)"
proof (induction l)
  case Nil
  then show ?case by simp
next
  case (Cons a l)
  show ?case
  proof (cases "l = []")
    case True
    then show ?thesis using Cons.prems by simp
  next
    case False
    have al: "ascending l" and lt: "\<forall>y\<in>set l. msg_id a < msg_id y"
      using Cons.prems(1) by (simp_all add: ascending_def)
    have "msg_id a < msg_id (last l)"
      using lt False by simp
    moreover have "msg_id x \<le> msg_id (last l)" if "x \<in> set l"
      using al that by (rule Cons.IH)
    ultimately show ?thesis using Cons.prems(2) False by auto
  qed
qed

lemma ascending_append:
  assumes "ascending l" and "ascending m" and "list_all (\<lambda>x. sinceId_of (Some l) < msg_id x) m"
  shows "ascending (l @ m)"
proof (cases "l = []")
  case True
  then show ?thesis using assms by simp
next
  case False
  have "msg_id x < msg_id y" if "x \<in> set l" "y \<in> set m" for x y
  proof -
    have "msg_id x \<le> msg_id (last l)" using assms(1) that(1) by (rule ascending_last)
    moreover have "msg_id (last l) < msg_id y"
      using assms(3) that(2) False by (simp add: sinceId_of_def list_all_iff)
    ultimately show ?thesis by simp
  qed
  then show ?thesis using assms(1,2) by (simp add: ascending_def sorted_wrt_append)
qed

lemma settle_messages:
  assumes w: "wf s" and l: "live s i"
  shows "messages (step (FetchSettled i (Resolved m)) s) =
     (if messages s = None \<or> m \<noteq> [] then
        Some (case messages s of None \<Rightarrow> m | Some oldM \<Rightarrow> oldM @ m)
      else messages s)"
proof -
  have "handle (FetchSettled i (Resolved m)) s = go_resume i (Resolved m) s"
    using l by (simp add: handle_def live_def)
  then show ?thesis
    using l wfD(2) [OF w l] by (simp add: step_same go_resume_fields live_def)
qed

lemma ascending_step:
  assumes w: "wf s" and a: "ascending_messages s" and h: "honours s e"
  shows "ascending_messages (step e s)"
  using handle_kinds [of e s]
proof (elim disjE exE conjE)
  assume "messages (handle e s) = messages s"
  then show ?thesis using a by (simp add: ascending_messages_def step_same)
next
  fix i r
  assume e: "e = FetchSettled i r" and i: "i < length (fetches s)"
    and p: "g_pending (fetches s ! i)" and hd: "handle e s = go_resume i r s"
  show ?thesis
  proof (cases r)
    case (Rejected x)
    then show ?thesis using a by (simp add: hd step_same ascending_messages_def go_resume_fields)
  next
    case (Resolved m)
    show ?thesis
    proof (cases "g_canceled (fetches s ! i)")
      case True
      then show ?thesis
        using a Resolved by (simp add: hd step_same ascending_messages_def go_resume_fields)
    next
      case False
      then have l: "live s i" using i p by (simp add: live_def)
      have am: "ascending m" and gt: "list_all (\<lambda>x. g_sinceId (fetches s ! i) < msg_id x) m"
        using h i by (simp_all add: honours_def e Resolved)
      have gt': "list_all (\<lambda>x. sinceId_of (messages s) < msg_id x) m"
        using gt wfD(3) [OF w l] by simp
      have ms: "messages (step e s) =
         (if messages s = None \<or> m \<noteq> [] then
            Some (case messages s of None \<Rightarrow> m | Some oldM \<Rightarrow> oldM @ m)
          else messages s)"
        unfolding e Resolved by (rule settle_messages [OF w l])
      show ?thesis
      proof (cases "messages s")
        case None
        then show ?thesis using am by (simp add: ms ascending_messages_def)
      next
        case (Some old)
        have "ascending old" using a Some by (simp add: ascending_messages_def)
        then have "ascending (old @ m)" using am gt' Some by (intro ascending_append) simp_all
        then show ?thesis using a Some by (simp add: ms ascending_messages_def)
      qed
    qed
  qed
qed

lemma ascending_run:
  "wf s \<Longrightarrow> ascending_messages s \<Longrightarrow> contract es s \<Longrightarrow> ascending_messages (run es s)"
  by (induction es arbitrary: s) (simp_all add: wf_step ascending_step)

lemma ascending_mount: "ascending_messages (mount c el)"
  by (simp add: ascending_messages_def mount_fields)

lemmas run_simps = step_hook step_same go_resume_fields handle_def cancel_def truthy_def ascii_def
  live_def sinceId_of_def

lemma example_chat_fields:
  "chatId example_chat = Some (ascii ''1'')" "messages example_chat = None"
  "isLoading example_chat" "error example_chat = None" "reloadCounter example_chat = 0"
  "interval example_chat = False" "cleanup example_chat = Some 0"
  "requests example_chat = [(ascii ''1'', 0)]"
  "fetches example_chat = [new_closure (initial (Some (ascii ''1'')) (Some example_el))]"
  by (simp_all add: example_chat_def mount_fields truthy_def ascii_def)

lemma ex1:
  "fetches (step (ChatIdChanged (Some (ascii ''2''))) example_chat) =
     [(new_closure (initial (Some (ascii ''1'')) (Some example_el)))\<lparr>g_canceled := True\<rparr>,
      new_closure (handle (ChatIdChanged (Some (ascii ''2''))) example_chat)]"
  by (simp add: run_simps example_chat_fields)

lemma ex2:
  "live (run [ChatIdChanged (Some (ascii ''2''))] example_chat) 1
   \<and> g_pending (fetches (run [ChatIdChanged (Some (ascii ''2''))] example_chat) ! 0)
   \<and> g_canceled (fetches (run [ChatIdChanged (Some (ascii ''2''))] example_chat) ! 0)
   \<and> isLoading (run [ChatIdChanged (Some (ascii ''2''))] example_chat)"
  by (simp add: run_simps example_chat_fields)

lemma ex3:
  "g_pending (fetches (run [ChatIdChanged (Some (ascii ''2'')), FetchSettled 1 (Resolved [])] example_chat) ! 0)
   \<and> \<not> isLoading (run [ChatIdChanged (Some (ascii ''2'')), FetchSettled 1 (Resolved [])] example_chat)
   \<and> requests (run [ChatIdChanged (Some (ascii ''2'')), FetchSettled 1 (Resolved [])] example_chat) = [(ascii ''1'', 0), (ascii ''2'', 0)]"
  by (simp add: run_simps example_chat_fields)

lemma settle_idle: "settle s s = s"
  by (simp add: settle_alt rerender_def commit_idle)

lemma tick_unset: "\<not> interval s \<Longrightarrow> step Tick s = s"
  by (simp add: step_def handle_def settle_idle)

lemma live_unique: "wf s \<Longrightarrow> live s i \<Longrightarrow> live s j \<Longrightarrow> i = j"
  using wfD(1) [of s i] wfD(1) [of s j] by simp

lemma loading_step:
  assumes w: "wf s" and a: "loading_while_live s" and u: "unspoilt s e"
  shows "loading_while_live (step e s)"
  using handle_kinds [of e s]
proof (elim disjE exE conjE)
  assume q: "fetches (handle e s) = fetches s" "cleanup (handle e s) = cleanup s"
    "isLoading (handle e s) = isLoading s"
  show ?thesis
  proof (cases "changed s (handle e s) FetchEffect")
    case True
    have "isLoading (step e s)" if "live (step e s) i" for i
      using live_after_fetch [OF w q(1,2) True that] True
      by (simp add: step_hook del: changed_simps)
    then show ?thesis by (simp add: loading_while_live_def)
  next
    case False
    then have "fetches (step e s) = fetches s" "isLoading (step e s) = isLoading s"
      by (simp_all add: step_hook q del: changed_simps)
    then show ?thesis using a by (simp add: loading_while_live_def live_def)
  qed
next
  fix i r
  assume e: "e = FetchSettled i r" and i: "i < length (fetches s)"
    and p: "g_pending (fetches s ! i)" and h: "handle e s = go_resume i r s"
  have nd: "\<not> changed s (handle e s) FetchEffect"
    by (simp add: h)
  have f: "fetches (step e s) = (fetches s)[i := (fetches s ! i)\<lparr>g_pending := False\<rparr>]"
    and il: "isLoading (step e s) = isLoading (go_resume i r s)"
    using nd by (simp_all add: step_hook h go_resume_fields del: changed_simps)
  have "isLoading (step e s)" if l: "live (step e s) j" for j
  proof -
    have ji: "j \<noteq> i" using l i by (auto simp add: live_def f)
    then have lj: "live s j" using l by (simp add: live_def f)
    have "\<not> live s i" using live_unique [OF w lj] ji by blast
    then have c: "g_canceled (fetches s ! i)" using i p by (simp add: live_def)
    have "\<exists>m. r = Resolved m"
      using u c i p by (cases r) (simp_all add: unspoilt_def e)
    then show ?thesis
      using a lj c by (auto simp add: il go_resume_fields loading_while_live_def)
  qed
  then show ?thesis by (simp add: loading_while_live_def)
qed

lemma loading_run:
  "wf s \<Longrightarrow> loading_while_live s \<Longrightarrow> unspoilt_run es s \<Longrightarrow> loading_while_live (run es s)"
  by (induction es arbitrary: s) (simp_all add: wf_step loading_step)

lemma loading_mount: "loading_while_live (mount c el)"
  by (simp add: loading_while_live_def mount_fields)

text \<open>
  Claim C3, as the code has it. In a run where no fetch fails after having been superseded,
  the poll interval is set exactly while \<open>isLoading\<close> is false, and \<open>isLoading\<close> is true
  while a live fetch (awaited, not superseded by a change of \<open>chatId\<close> or a reload) is in
  flight: the interval is not set then, a tick does nothing, and the next poll is issued
  only once that fetch has settled. At most one live fetch is in flight at any time.
\<close>

theorem poll_waits_for_live_fetch:
  assumes "unspoilt_run es (mount c el)" and "s = run es (mount c el)"
  shows "interval s = (\<not> isLoading s)
    \<and> (live s i \<longrightarrow> isLoading s \<and> \<not> interval s \<and> step Tick s = s)
    \<and> (live s i \<and> live s j \<longrightarrow> i = j)"
proof -
  have w: "wf s" unfolding assms(2) by (rule wf_run [OF wf_mount])
  have l: "loading_while_live s"
    unfolding assms(2) by (rule loading_run [OF wf_mount loading_mount assms(1)])
  have iv: "interval s = (\<not> isLoading s)" by (rule wf_interval [OF w])
  have "isLoading s \<and> \<not> interval s \<and> step Tick s = s" if "live s i"
  proof -
    have "isLoading s" using l that unfolding loading_while_live_def by blast
    then show ?thesis using iv tick_unset [of s] by simp
  qed
  then show ?thesis using iv live_unique [OF w] by blast
qed

lemma sinceId_of_simps:
  "sinceId_of None = 0" "sinceId_of (Some []) = 0" "sinceId_of (Some (l @ [x])) = msg_id x"
  by (simp_all add: sinceId_of_def)

lemma ascending_distinct: "ascending l \<Longrightarrow> distinct (map msg_id l)"
  by (simp add: ascending_def strict_sorted_iff)

lemma step_requests:
  "requests (step e s) = requests s
   \<or> requests (step e s) = requests s @ [(the (chatId (step e s)), sinceId_of (messages (step e s)))]"
  by (simp add: step_hook step_same del: changed_simps)

text \<open>
  Claim C2. \<open>s\<close> is any state the mounted page can reach. A step issues at most one GET
  request, and it asks for the messages after \<open>sinceId\<close>, the id of the last message the
  page holds, or 0 when it holds none. When the response \<open>m\<close> of a live fetch arrives, the
  \<open>sinceId\<close> of that fetch is still that cursor, and \<open>m\<close> is appended exactly when
  \<open>messages\<close> is still \<open>null\<close> or \<open>m\<close> is not empty; so an empty first response turns
  \<open>null\<close> into the empty sequence. When the responses so far honoured the server contract,
  the messages are in strictly ascending order of id, hence without duplicates, and they
  stay so after a further response that honours it.
\<close>

theorem incremental_fetch:
  assumes "s = run es (mount c el)"
  shows "(requests (step e s) = requests s
          \<or> requests (step e s)
              = requests s @ [(the (chatId (step e s)), sinceId_of (messages (step e s)))])
    \<and> sinceId_of None = 0 \<and> sinceId_of (Some []) = 0
    \<and> sinceId_of (Some (l @ [x])) = msg_id x
    \<and> (live s i \<longrightarrow>
          g_sinceId (fetches s ! i) = sinceId_of (messages s)
          \<and> messages (step (FetchSettled i (Resolved m)) s) =
             (if messages s = None \<or> m \<noteq> [] then
                Some (case messages s of None \<Rightarrow> m | Some oldM \<Rightarrow> oldM @ m)
              else messages s))
    \<and> (live s i \<and> messages s = None \<longrightarrow>
          messages (step (FetchSettled i (Resolved [])) s) = Some [])
    \<and> (contract es (mount c el) \<longrightarrow>
          ascending_messages s
          \<and> (case messages s of None \<Rightarrow> True | Some old \<Rightarrow> distinct (map msg_id old))
          \<and> (honours s (FetchSettled i (Resolved m)) \<longrightarrow>
               ascending_messages (step (FetchSettled i (Resolved m)) s)
               \<and> (case messages (step (FetchSettled i (Resolved m)) s) of
                     None \<Rightarrow> True | Some new \<Rightarrow> distinct (map msg_id new))))"
proof -
  have w: "wf s" unfolding assms by (rule wf_run [OF wf_mount])
  have a: "g_sinceId (fetches s ! i) = sinceId_of (messages s)
      \<and> messages (step (FetchSettled i (Resolved m)) s) =
         (if messages s = None \<or> m \<noteq> [] then
            Some (case messages s of None \<Rightarrow> m | Some oldM \<Rightarrow> oldM @ m)
          else messages s)" if "live s i" for m
    using wfD(3) [OF w that] settle_messages [OF w that] by simp
  have b: "messages (step (FetchSettled i (Resolved [])) s) = Some []"
    if "live s i" "messages s = None"
    using settle_messages [OF w that(1), of "[]"] that(2) by simp
  have d: "case messages t of None \<Rightarrow> True | Some old \<Rightarrow> distinct (map msg_id old)"
    if "ascending_messages t" for t
    using that by (auto simp add: ascending_messages_def ascending_distinct split: option.splits)
  have c: "ascending_messages s" if "contract es (mount c el)"
    unfolding assms by (rule ascending_run [OF wf_mount ascending_mount that])
  have e: "ascending_messages (step (FetchSettled i (Resolved m)) s)"
    if "contract es (mount c el)" "honours s (FetchSettled i (Resolved m))"
    by (rule ascending_step [OF w c [OF that(1)] that(2)])
  show ?thesis
    using step_requests [of e s] sinceId_of_simps(1,2) sinceId_of_simps(3) [of l x] a [of m] b c
      d [of s] d [of "step (FetchSettled i (Resolved m)) s"] e
    by blast
qed

lemma example_live: "live example_chat 0"
  by (simp add: live_def example_chat_fields)

lemma example_honours: "honours example_chat (FetchSettled 0 (Resolved example_two))"
  by (simp add: honours_def example_chat_fields example_two_def example_message_def
      ascending_def sinceId_of_def initial_def)

text \<open>
  The first fetch of the page mounted for chat \<open>1\<close>: its \<open>sinceId\<close> is 0; an empty response
  gives the empty sequence, and the response with ids 3 and 5 gives exactly these two.
\<close>

theorem incremental_fetch_witness:
  "live example_chat 0 \<and> messages example_chat = None
   \<and> contract [] (mount (Some (ascii ''1'')) (Some example_el))
   \<and> honours example_chat (FetchSettled 0 (Resolved example_two))
   \<and> g_sinceId (fetches example_chat ! 0) = 0
   \<and> messages (step (FetchSettled 0 (Resolved [])) example_chat) = Some []
   \<and> messages (step (FetchSettled 0 (Resolved example_two)) example_chat) = Some example_two
   \<and> ascending_messages (step (FetchSettled 0 (Resolved example_two)) example_chat)"
proof -
  have s: "example_chat = run [] (mount (Some (ascii ''1'')) (Some example_el))"
    by (simp add: example_chat_def)
  have m: "messages example_chat = None" by (rule example_chat_fields)
  have t: "example_two \<noteq> []" by (simp add: example_two_def)
  have c: "contract [] (mount (Some (ascii ''1'')) (Some example_el))" by simp
  note i = incremental_fetch [OF s, of _ _ _ 0 example_two]
  have "g_sinceId (fetches example_chat ! 0) = 0"
    using i example_live m by (simp add: sinceId_of_def)
  moreover have "messages (step (FetchSettled 0 (Resolved example_two)) example_chat) = Some example_two"
    using i example_live m t by simp
  moreover have "messages (step (FetchSettled 0 (Resolved [])) example_chat) = Some []"
    using i example_live m by blast
  moreover have "ascending_messages (step (FetchSettled 0 (Resolved example_two)) example_chat)"
    using i c example_honours by blast
  ultimately show ?thesis using example_live m c example_honours by blast
qed



text \<open>
  The sibling path: when a fetch that has been superseded succeeds, \<open>go\<close> returns at once.
  Nothing changes but the closure, which is no longer awaited.
\<close>

lemma stale_success_discarded:
  assumes "i < length (fetches s)" and "g_pending (fetches s ! i)" and "g_canceled (fetches s ! i)"
  shows "step (FetchSettled i (Resolved m)) s
    = s\<lparr>fetches := (fetches s)[i := (fetches s ! i)\<lparr>g_pending := False\<rparr>]\<rparr>"
proof -
  let ?c = "s\<lparr>fetches := (fetches s)[i := (fetches s ! i)\<lparr>g_pending := False\<rparr>]\<rparr>"
  have h: "handle (FetchSettled i (Resolved m)) s = ?c"
    using assms by (simp add: handle_def go_resume_def)
  have "changed s ?c e = False" for e
    by (cases e) (simp_all add: lastMessageId_def)
  then have "rerender s ?c = ?c"
    by (simp add: rerender_def commit_idle)
  then have "settle s ?c = ?c"
    by (simp add: settle_alt rerender_def commit_idle)
  then show ?thesis by (simp add: step_def h)
qed

text \<open>
  Claim C1 fails on the code when the superseded fetch fails. \<open>i\<close> is a fetch that is still
  awaited and whose closure has been canceled, by a change of \<open>chatId\<close> or by a reload. When
  its request is rejected, the \<open>catch\<close> block of \<open>go\<close>, which does not read \<open>canceled\<close>,
  stores the error and the statement after it clears \<open>isLoading\<close>, in the state that now
  belongs to the fetch that superseded it; that fetch stays in flight, and clearing
  \<open>isLoading\<close> sets the poll interval under it.
\<close>

theorem stale_failure_mutates_state:
  assumes "i < length (fetches s)" and "g_pending (fetches s ! i)" and "g_canceled (fetches s ! i)"
  shows "error (step (FetchSettled i (Rejected x)) s) = Some x
    \<and> \<not> isLoading (step (FetchSettled i (Rejected x)) s)
    \<and> console (step (FetchSettled i (Rejected x)) s) = console s @ [x]
    \<and> messages (step (FetchSettled i (Rejected x)) s) = messages s
    \<and> (interval s = (\<not> isLoading s) \<longrightarrow> interval (step (FetchSettled i (Rejected x)) s))
    \<and> (j \<noteq> i \<longrightarrow> live (step (FetchSettled i (Rejected x)) s) j = live s j)"
proof -
  define t where "t = step (FetchSettled i (Rejected x)) s"
  have h: "handle (FetchSettled i (Rejected x)) s = go_resume i (Rejected x) s"
    using assms by (simp add: handle_def)
  have nd: "\<not> changed s (handle (FetchSettled i (Rejected x)) s) FetchEffect"
    by (simp add: h)
  have f: "error t = Some x" "\<not> isLoading t" "console t = console s @ [x]" "messages t = messages s"
    "fetches t = (fetches s)[i := (fetches s ! i)\<lparr>g_pending := False\<rparr>]"
    unfolding t_def using nd
    by (simp_all add: step_hook step_same h go_resume_fields del: changed_simps)
  have iv: "interval t" if "interval s = (\<not> isLoading s)"
    using step_interval [OF that, of "FetchSettled i (Rejected x)"] f(2) by (simp add: t_def)
  have l: "live t j = live s j" if "j \<noteq> i"
    using that by (simp add: live_def f)
  show ?thesis using f(1-4) iv l unfolding t_def by blast
qed

text \<open>
  The page is mounted for chat \<open>1\<close> and the route changes to chat \<open>2\<close> while the first fetch
  is in flight: fetch 0 is canceled, fetch 1 is live, \<open>isLoading\<close> is true and \<open>error\<close> is
  \<open>null\<close>. Then the request of fetch 0 is rejected.
\<close>

theorem stale_failure_mutates_state_witness:
  "g_pending (fetches (run [ChatIdChanged (Some (ascii ''2''))] example_chat) ! 0)
   \<and> g_canceled (fetches (run [ChatIdChanged (Some (ascii ''2''))] example_chat) ! 0)
   \<and> chatId (run [ChatIdChanged (Some (ascii ''2''))] example_chat) = Some (ascii ''2'')
   \<and> live (run [ChatIdChanged (Some (ascii ''2''))] example_chat) 1
   \<and> isLoading (run [ChatIdChanged (Some (ascii ''2''))] example_chat)
   \<and> error (run [ChatIdChanged (Some (ascii ''2''))] example_chat) = None
   \<and> error (step (FetchSettled 0 (Rejected OtherError))
        (run [ChatIdChanged (Some (ascii ''2''))] example_chat)) = Some OtherError
   \<and> \<not> isLoading (step (FetchSettled 0 (Rejected OtherError))
        (run [ChatIdChanged (Some (ascii ''2''))] example_chat))
   \<and> live (step (FetchSettled 0 (Rejected OtherError))
        (run [ChatIdChanged (Some (ascii ''2''))] example_chat)) 1"
proof -
  define t where "t = run [ChatIdChanged (Some (ascii ''2''))] example_chat"
  have a: "0 < length (fetches t)" "g_pending (fetches t ! 0)" "g_canceled (fetches t ! 0)"
    "chatId t = Some (ascii ''2'')" "live t 1" "isLoading t" "error t = None"
    unfolding t_def by (simp_all add: run_simps example_chat_fields)
  have n: "(1::nat) \<noteq> 0" by simp
  show ?thesis
    using stale_failure_mutates_state [OF a(1-3), of OtherError 1] a n
    unfolding t_def by blast
qed

text \<open>
  The first fetch returns no message, the interval fires and fetch 1 is in flight.
\<close>

theorem poll_waits_for_live_fetch_witness:
  "unspoilt_run [FetchSettled 0 (Resolved []), Tick] (mount (Some (ascii ''1'')) (Some example_el))
   \<and> live (run [FetchSettled 0 (Resolved []), Tick] example_chat) 1
   \<and> isLoading (run [FetchSettled 0 (Resolved []), Tick] example_chat)
   \<and> \<not> interval (run [FetchSettled 0 (Resolved []), Tick] example_chat)
   \<and> step Tick (run [FetchSettled 0 (Resolved []), Tick] example_chat)
       = run [FetchSettled 0 (Resolved []), Tick] example_chat"
proof -
  have u: "unspoilt_run [FetchSettled 0 (Resolved []), Tick] (mount (Some (ascii ''1'')) (Some example_el))"
    by (simp add: unspoilt_def)
  have s: "run [FetchSettled 0 (Resolved []), Tick] example_chat
      = run [FetchSettled 0 (Resolved []), Tick] (mount (Some (ascii ''1'')) (Some example_el))"
    by (simp add: example_chat_def)
  define t where "t = step (FetchSettled 0 (Resolved [])) example_chat"
  have w0: "interval example_chat = (\<not> isLoading example_chat)"
    by (simp add: example_chat_fields)
  have w: "interval t = (\<not> isLoading t)" unfolding t_def by (rule step_interval [OF w0])
  have f: "chatId t = Some (ascii ''1'')"
    "fetches t = [(new_closure (initial (Some (ascii ''1'')) (Some example_el)))\<lparr>g_pending := False\<rparr>]"
    "cleanup t = Some 0" "reloadCounter t = 0" "\<not> isLoading t" "messages t = Some []"
    unfolding t_def by (simp_all add: run_simps example_chat_fields initial_def)
  have i: "interval t" using w f(5) by simp
  have l: "live (run [FetchSettled 0 (Resolved []), Tick] example_chat) 1"
    using i by (simp add: run_simps f t_def [symmetric])
  show ?thesis
    using poll_waits_for_live_fetch [OF u s, of 1] u l by blast
qed

text \<open>
  Claim C3 as stated fails, without any failure: a request that has been superseded is not
  aborted. The first fetch returns, the interval fires and issues fetch 1; the route changes
  to chat \<open>2\<close> while fetch 1 is in flight, which issues fetch 2; fetch 2 returns and the
  interval is set again. It fires and issues fetch 3 while the request of fetch 1 is still
  in flight: the timer has triggered a fetch during a fetch, and two fetches issued by the
  timer are in flight together.
\<close>

theorem poll_overlaps_superseded_fetch:
  "length (fetches (run [FetchSettled 0 (Resolved [])] example_chat)) = 1
   \<and> length (fetches (run [FetchSettled 0 (Resolved []), Tick] example_chat)) = 2
   \<and> g_pending (fetches (run [FetchSettled 0 (Resolved []), Tick,
        ChatIdChanged (Some (ascii ''2'')), FetchSettled 2 (Resolved [])] example_chat) ! 1)
   \<and> length (fetches (run [FetchSettled 0 (Resolved []), Tick,
        ChatIdChanged (Some (ascii ''2'')), FetchSettled 2 (Resolved [])] example_chat)) = 3
   \<and> interval (run [FetchSettled 0 (Resolved []), Tick,
        ChatIdChanged (Some (ascii ''2'')), FetchSettled 2 (Resolved [])] example_chat)
   \<and> length (fetches (run [FetchSettled 0 (Resolved []), Tick,
        ChatIdChanged (Some (ascii ''2'')), FetchSettled 2 (Resolved []), Tick] example_chat)) = 4
   \<and> g_pending (fetches (run [FetchSettled 0 (Resolved []), Tick,
        ChatIdChanged (Some (ascii ''2'')), FetchSettled 2 (Resolved []), Tick] example_chat) ! 1)
   \<and> g_pending (fetches (run [FetchSettled 0 (Resolved []), Tick,
        ChatIdChanged (Some (ascii ''2'')), FetchSettled 2 (Resolved []), Tick] example_chat) ! 3)
   \<and> requests (run [FetchSettled 0 (Resolved []), Tick,
        ChatIdChanged (Some (ascii ''2'')), FetchSettled 2 (Resolved []), Tick] example_chat)
       = [(ascii ''1'', 0), (ascii ''1'', 0), (ascii ''2'', 0), (ascii ''2'', 0)]"
proof -
  define c0 where "c0 = new_closure (initial (Some (ascii ''1'')) (Some example_el))"
  define t1 where "t1 = step (FetchSettled 0 (Resolved [])) example_chat"
  have w0: "interval example_chat = (\<not> isLoading example_chat)"
    by (simp add: example_chat_fields)
  have w1: "interval t1 = (\<not> isLoading t1)" unfolding t1_def by (rule step_interval [OF w0])
  have f1: "chatId t1 = Some (ascii ''1'')" "fetches t1 = [c0\<lparr>g_pending := False\<rparr>]"
    "cleanup t1 = Some 0" "reloadCounter t1 = 0" "\<not> isLoading t1" "messages t1 = Some []"
    "requests t1 = [(ascii ''1'', 0)]"
    unfolding t1_def c0_def by (simp_all add: run_simps example_chat_fields initial_def)
  have i1: "interval t1" using w1 f1(5) by simp
  define t2 where "t2 = step Tick t1"
  have w2: "interval t2 = (\<not> isLoading t2)" unfolding t2_def by (rule step_interval [OF w1])
  have f2: "chatId t2 = Some (ascii ''1'')" "length (fetches t2) = 2" "g_pending (fetches t2 ! 1)"
    "cleanup t2 = Some 1" "reloadCounter t2 = 1" "isLoading t2" "messages t2 = Some []"
    "requests t2 = [(ascii ''1'', 0), (ascii ''1'', 0)]"
    unfolding t2_def using i1 by (simp_all add: run_simps f1)
  define t3 where "t3 = step (ChatIdChanged (Some (ascii ''2''))) t2"
  have w3: "interval t3 = (\<not> isLoading t3)" unfolding t3_def by (rule step_interval [OF w2])
  have f3: "chatId t3 = Some (ascii ''2'')" "length (fetches t3) = 3" "g_pending (fetches t3 ! 1)"
    "g_pending (fetches t3 ! 2)" "\<not> g_canceled (fetches t3 ! 2)" "g_messages (fetches t3 ! 2) = Some []"
    "cleanup t3 = Some 2" "reloadCounter t3 = 1" "isLoading t3" "messages t3 = Some []"
    "requests t3 = [(ascii ''1'', 0), (ascii ''1'', 0), (ascii ''2'', 0)]"
    unfolding t3_def using f2(2,3)
    by (simp_all add: run_simps f2 nth_append nth_list_update)
  define t4 where "t4 = step (FetchSettled 2 (Resolved [])) t3"
  have w4: "interval t4 = (\<not> isLoading t4)" unfolding t4_def by (rule step_interval [OF w3])
  have f4: "chatId t4 = Some (ascii ''2'')" "length (fetches t4) = 3" "g_pending (fetches t4 ! 1)"
    "cleanup t4 = Some 2" "reloadCounter t4 = 1" "\<not> isLoading t4" "messages t4 = Some []"
    "requests t4 = [(ascii ''1'', 0), (ascii ''1'', 0), (ascii ''2'', 0)]"
    unfolding t4_def using f3(2-6)
    by (simp_all add: run_simps f3 nth_list_update)
  have i4: "interval t4" using w4 f4(6) by simp
  define t5 where "t5 = step Tick t4"
  have f5: "length (fetches t5) = 4" "g_pending (fetches t5 ! 1)" "g_pending (fetches t5 ! 3)"
    "requests t5 = [(ascii ''1'', 0), (ascii ''1'', 0), (ascii ''2'', 0), (ascii ''2'', 0)]"
    unfolding t5_def using i4 f4(2,3)
    by (simp_all add: run_simps f4 nth_append nth_list_update)
  have r: "run [FetchSettled 0 (Resolved [])] example_chat = t1"
    "run [FetchSettled 0 (Resolved []), Tick] example_chat = t2"
    "run [FetchSettled 0 (Resolved []), Tick, ChatIdChanged (Some (ascii ''2'')),
        FetchSettled 2 (Resolved [])] example_chat = t4"
    "run [FetchSettled 0 (Resolved []), Tick, ChatIdChanged (Some (ascii ''2'')),
        FetchSettled 2 (Resolved []), Tick] example_chat = t5"
    by (simp_all add: t1_def t2_def t3_def t4_def t5_def)
  show ?thesis
    unfolding r using f1(2) f2(2) f4(2,3) i4 f5 by simp
qed

end
